theory Spec2Isabelle
  imports Main "HOL-Library.Multiset"
begin

section \<open>Data model\<close>

text \<open>
  The layout engine of \<^verbatim>\<open>layout.py\<close> passes regions around as flat Python lists that
  grow by one entry per pipeline stage:
  \<^verbatim>\<open>[x1, y1, x2, y2, label]\<close> after extraction,
  \<^verbatim>\<open>[x1, y1, x2, y2, label, box_id]\<close> after \<^verbatim>\<open>assign_boxIDs\<close>, and
  \<^verbatim>\<open>[x1, y1, x2, y2, label, box_id, position]\<close> after order reconciliation.
  Each stage is a record that extends the one before it. Coordinates are pixel
  coordinates, modelled as Python's unbounded integers; a slice \<^verbatim>\<open>box[:4]\<close> reads the
  four coordinate fields.
\<close>

record rectangle =
  x1 :: int
  y1 :: int
  x2 :: int
  y2 :: int

record labelled = rectangle +
  label :: string

record identified = labelled +
  box_id :: nat

record region = identified +
  position :: int

text \<open>\<^verbatim>\<open>tuple(box[:4])\<close>: the coordinates as a dictionary key.\<close>

type_synonym coords = "int \<times> int \<times> int \<times> int"

definition coords_of :: "'a rectangle_scheme \<Rightarrow> coords" where
  "coords_of box = (x1 box, y1 box, x2 box, y2 box)"

section \<open>Geometric predicates\<close>

definition valueInRange :: "int \<Rightarrow> int \<Rightarrow> int \<Rightarrow> bool" where
  "valueInRange v min_val max_val \<longleftrightarrow> min_val \<le> v \<and> v \<le> max_val"

definition rectOverlap :: "'a rectangle_scheme \<Rightarrow> 'b rectangle_scheme \<Rightarrow> bool" where
  "rectOverlap box1 box2 \<longleftrightarrow>
     (let xOverlap = valueInRange (x1 box1) (x1 box2) (x2 box2) \<or>
                     valueInRange (x1 box2) (x1 box1) (x2 box1);
          yOverlap = valueInRange (y1 box1) (y1 box2) (y2 box2) \<or>
                     valueInRange (y1 box2) (y1 box1) (y2 box1)
      in xOverlap \<and> yOverlap)"

definition full_encapsulation :: "'a rectangle_scheme \<Rightarrow> 'b rectangle_scheme \<Rightarrow> bool" where
  "full_encapsulation primary_box secondary_box \<longleftrightarrow>
     (x1 primary_box \<le> x1 secondary_box \<and> x1 secondary_box < x2 secondary_box \<and>
      x2 secondary_box \<le> x2 primary_box) \<and>
     (y1 primary_box \<le> y1 secondary_box \<and> y1 secondary_box < y2 secondary_box \<and>
      y2 secondary_box \<le> y2 primary_box)"

section \<open>Gap-filling expander\<close>

text \<open>
  \<^verbatim>\<open>adjust_bounding_boxes_final(boxes, image_bbox)\<close> keeps two copies of the region
  list. Each copy is swept in place, index by index, until a whole sweep changes
  nothing; a sweep therefore sees the boxes already moved earlier in the same sweep.
  The state of a sweep is the list together with the flag \<^verbatim>\<open>changes_made\<close>.
\<close>

definition pictorial :: "string \<Rightarrow> bool" where
  "pictorial l \<longleftrightarrow> l \<in> set [''Picture'', ''Figure'']"

text \<open>The inner loop over \<^verbatim>\<open>j\<close>: does any other box overlap box \<^verbatim>\<open>i\<close>?\<close>

definition intersection_found :: "nat \<Rightarrow> region list \<Rightarrow> bool" where
  "intersection_found i boxes \<longleftrightarrow>
     list_ex (\<lambda>j. i \<noteq> j \<and> rectOverlap (boxes ! i) (boxes ! j)) [0..<length boxes]"

definition vertical_step :: "int \<Rightarrow> nat \<Rightarrow> region list \<times> bool \<Rightarrow> region list \<times> bool" where
  "vertical_step y_max i st =
     (let boxes = fst st; changes_made = snd st; box1 = boxes ! i in
      if pictorial (label box1) then st
      else if intersection_found i boxes then st
      else
        let y_1t_new = (if y2 box1 < y_max then y2 box1 + 1 else y2 box1);
            y_1b_new = (if y1 box1 > 0 then y1 box1 - 1 else y1 box1)
        in if y_1t_new \<noteq> y2 box1 \<or> y_1b_new \<noteq> y1 box1
           then (boxes[i := \<lparr>x1 = x1 box1, y1 = y_1b_new, x2 = x2 box1, y2 = y_1t_new,
                            label = label box1, box_id = box_id box1,
                            position = position box1\<rparr>], True)
           else st)"

definition vertical_sweep :: "int \<Rightarrow> region list \<Rightarrow> region list \<times> bool" where
  "vertical_sweep y_max boxes = fold (vertical_step y_max) [0..<length boxes] (boxes, False)"

definition horizontal_step :: "int \<Rightarrow> nat \<Rightarrow> region list \<times> bool \<Rightarrow> region list \<times> bool" where
  "horizontal_step x_max i st =
     (let boxes = fst st; changes_made = snd st; box1 = boxes ! i in
      if pictorial (label box1) then st
      else if intersection_found i boxes then st
      else
        let x_1l_new = (if x1 box1 > 0 then x1 box1 - 1 else x1 box1);
            x_1r_new = (if x2 box1 < x_max then x2 box1 + 1 else x2 box1)
        in if x_1l_new \<noteq> x1 box1 \<or> x_1r_new \<noteq> x2 box1
           then (boxes[i := \<lparr>x1 = x_1l_new, y1 = y1 box1, x2 = x_1r_new, y2 = y2 box1,
                            label = label box1, box_id = box_id box1,
                            position = position box1\<rparr>], True)
           else st)"

definition horizontal_sweep :: "int \<Rightarrow> region list \<Rightarrow> region list \<times> bool" where
  "horizontal_sweep x_max boxes =
     fold (horizontal_step x_max) [0..<length boxes] (boxes, False)"

text \<open>
  The distance still open to the page bounds, summed over the list. Every change made by
  a sweep moves one edge one pixel toward its bound, so this number falls.
\<close>

definition vertical_slack :: "int \<Rightarrow> region \<Rightarrow> nat" where
  "vertical_slack y_max b = nat (y_max - y2 b) + nat (y1 b)"

definition horizontal_slack :: "int \<Rightarrow> region \<Rightarrow> nat" where
  "horizontal_slack x_max b = nat (x_max - x2 b) + nat (x1 b)"

definition vertical_measure :: "int \<Rightarrow> region list \<Rightarrow> nat" where
  "vertical_measure y_max boxes = sum_list (map (vertical_slack y_max) boxes)"

definition horizontal_measure :: "int \<Rightarrow> region list \<Rightarrow> nat" where
  "horizontal_measure x_max boxes = sum_list (map (horizontal_slack x_max) boxes)"

text \<open>
  What one step of a sweep does to box \<^verbatim>\<open>i\<close>, in closed form: the box is left alone when
  it is pictorial, when another box overlaps it, or when both of its edges have reached
  their bounds; otherwise it is replaced by the grown box and the flag is raised.
\<close>

definition vertical_grow :: "int \<Rightarrow> region \<Rightarrow> region" where
  "vertical_grow y_max b =
     \<lparr>x1 = x1 b, y1 = (if y1 b > 0 then y1 b - 1 else y1 b), x2 = x2 b,
      y2 = (if y2 b < y_max then y2 b + 1 else y2 b),
      label = label b, box_id = box_id b, position = position b\<rparr>"

definition vertical_stuck :: "int \<Rightarrow> nat \<Rightarrow> region list \<Rightarrow> bool" where
  "vertical_stuck y_max i boxes \<longleftrightarrow>
     pictorial (label (boxes ! i)) \<or> intersection_found i boxes \<or>
     (\<not> y2 (boxes ! i) < y_max \<and> \<not> y1 (boxes ! i) > 0)"

definition horizontal_grow :: "int \<Rightarrow> region \<Rightarrow> region" where
  "horizontal_grow x_max b =
     \<lparr>x1 = (if x1 b > 0 then x1 b - 1 else x1 b), y1 = y1 b,
      x2 = (if x2 b < x_max then x2 b + 1 else x2 b), y2 = y2 b,
      label = label b, box_id = box_id b, position = position b\<rparr>"

definition horizontal_stuck :: "int \<Rightarrow> nat \<Rightarrow> region list \<Rightarrow> bool" where
  "horizontal_stuck x_max i boxes \<longleftrightarrow>
     pictorial (label (boxes ! i)) \<or> intersection_found i boxes \<or>
     (\<not> x1 (boxes ! i) > 0 \<and> \<not> x2 (boxes ! i) < x_max)"

subsection \<open>Each changing sweep lowers the measure\<close>

lemma sum_list_map_update_less:
  fixes f :: "'a \<Rightarrow> nat"
  assumes "i < length xs" "f v < f (xs ! i)"
  shows "sum_list (map f (xs[i := v])) < sum_list (map f xs)"
  using assms
proof (induction xs arbitrary: i)
  case Nil
  then show ?case by simp
next
  case (Cons a xs)
  then show ?case by (cases i) auto
qed

lemma vertical_step_eq:
  "vertical_step y_max i st =
     (if vertical_stuck y_max i (fst st) then st
      else ((fst st)[i := vertical_grow y_max (fst st ! i)], True))"
  by (auto simp: vertical_step_def vertical_stuck_def vertical_grow_def Let_def)

lemma vertical_grow_slack:
  "y2 b < y_max \<or> y1 b > 0 \<Longrightarrow>
   vertical_slack y_max (vertical_grow y_max b) < vertical_slack y_max b"
  by (auto simp: vertical_slack_def vertical_grow_def)

lemma vertical_step_length:
  "length (fst (vertical_step y_max i st)) = length (fst st)"
  by (simp add: vertical_step_eq)

lemma vertical_step_measure:
  assumes "i < length (fst st)"
  shows "vertical_step y_max i st = st \<or>
         (snd (vertical_step y_max i st) \<and>
          vertical_measure y_max (fst (vertical_step y_max i st)) < vertical_measure y_max (fst st))"
proof (cases "vertical_stuck y_max i (fst st)")
  case True
  then show ?thesis by (simp add: vertical_step_eq)
next
  case False
  then have "y2 (fst st ! i) < y_max \<or> y1 (fst st ! i) > 0"
    by (auto simp: vertical_stuck_def)
  then have "vertical_slack y_max (vertical_grow y_max (fst st ! i))
               < vertical_slack y_max (fst st ! i)"
    by (rule vertical_grow_slack)
  with assms False show ?thesis
    by (simp add: vertical_step_eq vertical_measure_def sum_list_map_update_less)
qed

lemma vertical_fold_length:
  "length (fst (fold (vertical_step y_max) is st)) = length (fst st)"
  by (induction "is" arbitrary: st) (simp_all add: vertical_step_length)

lemma vertical_fold_measure:
  assumes "\<forall>i\<in>set is. i < length (fst st)"
  shows "fold (vertical_step y_max) is st = st \<or>
         (snd (fold (vertical_step y_max) is st) \<and>
          vertical_measure y_max (fst (fold (vertical_step y_max) is st))
            < vertical_measure y_max (fst st))"
  using assms
proof (induction "is" arbitrary: st)
  case Nil
  then show ?case by simp
next
  case (Cons i "is")
  let ?st' = "vertical_step y_max i st"
  have len: "length (fst ?st') = length (fst st)" by (rule vertical_step_length)
  from Cons.prems have i: "i < length (fst st)" by simp
  from Cons.prems len have "\<forall>k\<in>set is. k < length (fst ?st')" by simp
  from Cons.IH[OF this] vertical_step_measure[OF i, of y_max]
  show ?case by auto
qed

lemma vertical_sweep_unchanged:
  "vertical_sweep y_max boxes = (boxes', False) \<Longrightarrow> boxes' = boxes"
  using vertical_fold_measure[of "[0..<length boxes]" "(boxes, False)" y_max]
  by (auto simp: vertical_sweep_def)

lemma vertical_sweep_decreases:
  "vertical_sweep y_max boxes = (boxes', True) \<Longrightarrow>
   vertical_measure y_max boxes' < vertical_measure y_max boxes"
  using vertical_fold_measure[of "[0..<length boxes]" "(boxes, False)" y_max]
  by (auto simp: vertical_sweep_def)

function (domintros) vertical_pass :: "int \<Rightarrow> region list \<Rightarrow> region list" where
  "vertical_pass y_max boxes =
     (case vertical_sweep y_max boxes of
        (boxes', changes_made) \<Rightarrow>
          if \<not> changes_made then boxes' else vertical_pass y_max boxes')"
  by pat_completeness auto
termination
  by (relation "measure (\<lambda>(y_max, boxes). vertical_measure y_max boxes)")
     (auto dest: vertical_sweep_decreases [OF sym])

declare vertical_pass.simps [simp del]

lemma horizontal_step_eq:
  "horizontal_step x_max i st =
     (if horizontal_stuck x_max i (fst st) then st
      else ((fst st)[i := horizontal_grow x_max (fst st ! i)], True))"
  by (auto simp: horizontal_step_def horizontal_stuck_def horizontal_grow_def Let_def)

lemma horizontal_grow_slack:
  "x2 b < x_max \<or> x1 b > 0 \<Longrightarrow>
   horizontal_slack x_max (horizontal_grow x_max b) < horizontal_slack x_max b"
  by (auto simp: horizontal_slack_def horizontal_grow_def)

lemma horizontal_step_length:
  "length (fst (horizontal_step x_max i st)) = length (fst st)"
  by (simp add: horizontal_step_eq)

lemma horizontal_step_measure:
  assumes "i < length (fst st)"
  shows "horizontal_step x_max i st = st \<or>
         (snd (horizontal_step x_max i st) \<and>
          horizontal_measure x_max (fst (horizontal_step x_max i st)) < horizontal_measure x_max (fst st))"
proof (cases "horizontal_stuck x_max i (fst st)")
  case True
  then show ?thesis by (simp add: horizontal_step_eq)
next
  case False
  then have "x2 (fst st ! i) < x_max \<or> x1 (fst st ! i) > 0"
    by (auto simp: horizontal_stuck_def)
  then have "horizontal_slack x_max (horizontal_grow x_max (fst st ! i))
               < horizontal_slack x_max (fst st ! i)"
    by (rule horizontal_grow_slack)
  with assms False show ?thesis
    by (simp add: horizontal_step_eq horizontal_measure_def sum_list_map_update_less)
qed

lemma horizontal_fold_length:
  "length (fst (fold (horizontal_step x_max) is st)) = length (fst st)"
  by (induction "is" arbitrary: st) (simp_all add: horizontal_step_length)

lemma horizontal_fold_measure:
  assumes "\<forall>i\<in>set is. i < length (fst st)"
  shows "fold (horizontal_step x_max) is st = st \<or>
         (snd (fold (horizontal_step x_max) is st) \<and>
          horizontal_measure x_max (fst (fold (horizontal_step x_max) is st))
            < horizontal_measure x_max (fst st))"
  using assms
proof (induction "is" arbitrary: st)
  case Nil
  then show ?case by simp
next
  case (Cons i "is")
  let ?st' = "horizontal_step x_max i st"
  have len: "length (fst ?st') = length (fst st)" by (rule horizontal_step_length)
  from Cons.prems have i: "i < length (fst st)" by simp
  from Cons.prems len have "\<forall>k\<in>set is. k < length (fst ?st')" by simp
  from Cons.IH[OF this] horizontal_step_measure[OF i, of x_max]
  show ?case by auto
qed

lemma horizontal_sweep_unchanged:
  "horizontal_sweep x_max boxes = (boxes', False) \<Longrightarrow> boxes' = boxes"
  using horizontal_fold_measure[of "[0..<length boxes]" "(boxes, False)" x_max]
  by (auto simp: horizontal_sweep_def)

lemma horizontal_sweep_decreases:
  "horizontal_sweep x_max boxes = (boxes', True) \<Longrightarrow>
   horizontal_measure x_max boxes' < horizontal_measure x_max boxes"
  using horizontal_fold_measure[of "[0..<length boxes]" "(boxes, False)" x_max]
  by (auto simp: horizontal_sweep_def)

function (domintros) horizontal_pass :: "int \<Rightarrow> region list \<Rightarrow> region list" where
  "horizontal_pass x_max boxes =
     (case horizontal_sweep x_max boxes of
        (boxes', changes_made) \<Rightarrow>
          if \<not> changes_made then boxes' else horizontal_pass x_max boxes')"
  by pat_completeness auto
termination
  by (relation "measure (\<lambda>(x_max, boxes). horizontal_measure x_max boxes)")
     (auto dest: horizontal_sweep_decreases [OF sym])

declare horizontal_pass.simps [simp del]

subsection \<open>Merging the two copies\<close>

text \<open>
  The loop over \<^verbatim>\<open>zip(adjusted_boxes_vertical, adjusted_boxes_horizontal)\<close>: pictorial
  boxes keep the vertical copy, every other box takes its x extent from the horizontal
  copy and everything else from the vertical copy. Of \<^verbatim>\<open>image_bbox\<close> only the entries at
  index 2 and 3 are read.
\<close>

definition final_box :: "region \<Rightarrow> region \<Rightarrow> region" where
  "final_box box_vertical box_horizontal =
     (if pictorial (label box_vertical) then box_vertical
      else \<lparr>x1 = x1 box_horizontal, y1 = y1 box_vertical, x2 = x2 box_horizontal,
            y2 = y2 box_vertical, label = label box_vertical,
            box_id = box_id box_vertical, position = position box_vertical\<rparr>)"

definition adjust_bounding_boxes_final :: "region list \<Rightarrow> coords \<Rightarrow> region list" where
  "adjust_bounding_boxes_final boxes image_bbox =
     (case image_bbox of (_, _, x_max, y_max) \<Rightarrow>
        let adjusted_boxes_vertical = vertical_pass y_max boxes;
            adjusted_boxes_horizontal = horizontal_pass x_max boxes
        in map2 final_box adjusted_boxes_vertical adjusted_boxes_horizontal)"

subsection \<open>What a pass may change in a box, and where a pass stops\<close>

text \<open>
  The relation between a box before and after any number of steps of one pass: the
  other axis and the three tags are untouched, the box only grows, a pictorial box is
  untouched, and an edge inside the page stays inside the page.
\<close>

definition vertical_rel :: "int \<Rightarrow> region \<Rightarrow> region \<Rightarrow> bool" where
  "vertical_rel y_max a b \<longleftrightarrow>
     x1 b = x1 a \<and> x2 b = x2 a \<and> label b = label a \<and> box_id b = box_id a \<and>
     position b = position a \<and> y1 b \<le> y1 a \<and> y2 a \<le> y2 b \<and>
     (pictorial (label a) \<longrightarrow> b = a) \<and>
     (0 \<le> y1 a \<longrightarrow> 0 \<le> y1 b) \<and> (y2 a \<le> y_max \<longrightarrow> y2 b \<le> y_max)"

definition horizontal_rel :: "int \<Rightarrow> region \<Rightarrow> region \<Rightarrow> bool" where
  "horizontal_rel x_max a b \<longleftrightarrow>
     y1 b = y1 a \<and> y2 b = y2 a \<and> label b = label a \<and> box_id b = box_id a \<and>
     position b = position a \<and> x1 b \<le> x1 a \<and> x2 a \<le> x2 b \<and>
     (pictorial (label a) \<longrightarrow> b = a) \<and>
     (0 \<le> x1 a \<longrightarrow> 0 \<le> x1 b) \<and> (x2 a \<le> x_max \<longrightarrow> x2 b \<le> x_max)"

lemma list_all2_same_update:
  assumes "\<And>x. R x x" "R (xs ! i) v"
  shows "list_all2 R xs (xs[i := v])"
proof -
  have "list_all2 R xs xs" using assms(1) by (simp add: list_all2_same)
  from list_all2_update_cong[OF this assms(2), of i] show ?thesis by simp
qed

lemma vertical_rel_refl: "vertical_rel y_max a a"
  by (simp add: vertical_rel_def)

lemma vertical_rel_trans:
  "vertical_rel y_max a b \<Longrightarrow> vertical_rel y_max b c \<Longrightarrow> vertical_rel y_max a c"
  by (auto simp: vertical_rel_def)

lemma vertical_rel_grow:
  "\<not> pictorial (label a) \<Longrightarrow> vertical_rel y_max a (vertical_grow y_max a)"
  by (simp add: vertical_rel_def vertical_grow_def)

lemma vertical_step_rel:
  "list_all2 (vertical_rel y_max) (fst st) (fst (vertical_step y_max i st))"
proof (cases "vertical_stuck y_max i (fst st)")
  case True
  then show ?thesis
    by (simp add: vertical_step_eq list_all2_same vertical_rel_refl)
next
  case False
  then have "\<not> pictorial (label (fst st ! i))" by (simp add: vertical_stuck_def)
  then have "vertical_rel y_max (fst st ! i) (vertical_grow y_max (fst st ! i))"
    by (rule vertical_rel_grow)
  with False show ?thesis
    by (simp add: vertical_step_eq list_all2_same_update vertical_rel_refl)
qed

lemma vertical_fold_rel:
  "list_all2 (vertical_rel y_max) (fst st) (fst (fold (vertical_step y_max) is st))"
proof (induction "is" arbitrary: st)
  case Nil
  then show ?case by (simp add: list_all2_same vertical_rel_refl)
next
  case (Cons i "is")
  have "list_all2 (vertical_rel y_max) (fst st) (fst (vertical_step y_max i st))"
    by (rule vertical_step_rel)
  moreover have "list_all2 (vertical_rel y_max) (fst (vertical_step y_max i st))
      (fst (fold (vertical_step y_max) is (vertical_step y_max i st)))"
    by (rule Cons.IH)
  ultimately show ?case
    using list_all2_trans[of "vertical_rel y_max" "vertical_rel y_max" "vertical_rel y_max"]
    by (auto intro: vertical_rel_trans)
qed

lemma vertical_sweep_rel:
  "list_all2 (vertical_rel y_max) boxes (fst (vertical_sweep y_max boxes))"
  using vertical_fold_rel[of y_max "(boxes, False)"] by (simp add: vertical_sweep_def)

lemma vertical_pass_rel:
  "list_all2 (vertical_rel y_max) boxes (vertical_pass y_max boxes)"
proof (induction y_max boxes rule: vertical_pass.induct)
  case (1 y_max boxes)
  obtain boxes' ch where sw: "vertical_sweep y_max boxes = (boxes', ch)"
    by (cases "vertical_sweep y_max boxes")
  have step: "list_all2 (vertical_rel y_max) boxes boxes'"
    using vertical_sweep_rel[of y_max boxes] sw by simp
  show ?case
  proof (cases ch)
    case False
    with sw step show ?thesis by (simp add: vertical_pass.simps[of y_max boxes])
  next
    case True
    with "1.IH"[OF sw[symmetric]] have "list_all2 (vertical_rel y_max) boxes' (vertical_pass y_max boxes')"
      by simp
    with step have "list_all2 (vertical_rel y_max) boxes (vertical_pass y_max boxes')"
      using list_all2_trans[of "vertical_rel y_max" "vertical_rel y_max" "vertical_rel y_max"]
      by (blast intro: vertical_rel_trans)
    with sw True show ?thesis by (simp add: vertical_pass.simps[of y_max boxes])
  qed
qed

lemma vertical_fold_flag:
  "snd st \<Longrightarrow> snd (fold (vertical_step y_max) is st)"
  by (induction "is" arbitrary: st) (simp_all add: vertical_step_eq)

lemma vertical_fold_stuck:
  "\<not> snd (fold (vertical_step y_max) is st) \<Longrightarrow> \<forall>i\<in>set is. vertical_stuck y_max i (fst st)"
proof (induction "is" arbitrary: st)
  case Nil
  then show ?case by simp
next
  case (Cons i "is")
  show ?case
  proof (cases "vertical_stuck y_max i (fst st)")
    case True
    then have "vertical_step y_max i st = st" by (simp add: vertical_step_eq)
    with Cons.prems have "\<not> snd (fold (vertical_step y_max) is st)" by simp
    from Cons.IH[OF this] True show ?thesis by simp
  next
    case False
    then have "snd (vertical_step y_max i st)" by (simp add: vertical_step_eq)
    then have "snd (fold (vertical_step y_max) is (vertical_step y_max i st))"
      by (rule vertical_fold_flag)
    with Cons.prems show ?thesis by simp
  qed
qed

lemma vertical_fold_id:
  "\<forall>i\<in>set is. vertical_stuck y_max i (fst st) \<Longrightarrow> fold (vertical_step y_max) is st = st"
  by (induction "is" arbitrary: st) (simp_all add: vertical_step_eq)

lemma vertical_sweep_fixed_iff:
  "vertical_sweep y_max boxes = (boxes, False) \<longleftrightarrow>
   (\<forall>i<length boxes. vertical_stuck y_max i boxes)"
proof
  assume "vertical_sweep y_max boxes = (boxes, False)"
  then have "\<not> snd (fold (vertical_step y_max) [0..<length boxes] (boxes, False))"
    by (simp add: vertical_sweep_def)
  from vertical_fold_stuck[OF this] show "\<forall>i<length boxes. vertical_stuck y_max i boxes"
    by simp
next
  assume "\<forall>i<length boxes. vertical_stuck y_max i boxes"
  then have "\<forall>i\<in>set [0..<length boxes]. vertical_stuck y_max i (fst (boxes, False))"
    by simp
  from vertical_fold_id[OF this] show "vertical_sweep y_max boxes = (boxes, False)"
    by (simp add: vertical_sweep_def)
qed

lemma vertical_pass_fixed:
  "vertical_sweep y_max (vertical_pass y_max boxes) = (vertical_pass y_max boxes, False)"
proof (induction y_max boxes rule: vertical_pass.induct)
  case (1 y_max boxes)
  obtain boxes' ch where sw: "vertical_sweep y_max boxes = (boxes', ch)"
    by (cases "vertical_sweep y_max boxes")
  show ?case
  proof (cases ch)
    case False
    with sw have "boxes' = boxes" by (simp add: vertical_sweep_unchanged)
    with sw False show ?thesis by (simp add: vertical_pass.simps[of y_max boxes])
  next
    case True
    with "1.IH"[OF sw[symmetric]] sw show ?thesis
      by (simp add: vertical_pass.simps[of y_max boxes])
  qed
qed

lemma vertical_pass_id:
  "\<forall>i<length boxes. vertical_stuck y_max i boxes \<Longrightarrow> vertical_pass y_max boxes = boxes"
  by (simp add: vertical_pass.simps[of y_max boxes] vertical_sweep_fixed_iff[symmetric])

lemma horizontal_rel_refl: "horizontal_rel x_max a a"
  by (simp add: horizontal_rel_def)

lemma horizontal_rel_trans:
  "horizontal_rel x_max a b \<Longrightarrow> horizontal_rel x_max b c \<Longrightarrow> horizontal_rel x_max a c"
  by (auto simp: horizontal_rel_def)

lemma horizontal_rel_grow:
  "\<not> pictorial (label a) \<Longrightarrow> horizontal_rel x_max a (horizontal_grow x_max a)"
  by (simp add: horizontal_rel_def horizontal_grow_def)

lemma horizontal_step_rel:
  "list_all2 (horizontal_rel x_max) (fst st) (fst (horizontal_step x_max i st))"
proof (cases "horizontal_stuck x_max i (fst st)")
  case True
  then show ?thesis
    by (simp add: horizontal_step_eq list_all2_same horizontal_rel_refl)
next
  case False
  then have "\<not> pictorial (label (fst st ! i))" by (simp add: horizontal_stuck_def)
  then have "horizontal_rel x_max (fst st ! i) (horizontal_grow x_max (fst st ! i))"
    by (rule horizontal_rel_grow)
  with False show ?thesis
    by (simp add: horizontal_step_eq list_all2_same_update horizontal_rel_refl)
qed

lemma horizontal_fold_rel:
  "list_all2 (horizontal_rel x_max) (fst st) (fst (fold (horizontal_step x_max) is st))"
proof (induction "is" arbitrary: st)
  case Nil
  then show ?case by (simp add: list_all2_same horizontal_rel_refl)
next
  case (Cons i "is")
  have "list_all2 (horizontal_rel x_max) (fst st) (fst (horizontal_step x_max i st))"
    by (rule horizontal_step_rel)
  moreover have "list_all2 (horizontal_rel x_max) (fst (horizontal_step x_max i st))
      (fst (fold (horizontal_step x_max) is (horizontal_step x_max i st)))"
    by (rule Cons.IH)
  ultimately show ?case
    using list_all2_trans[of "horizontal_rel x_max" "horizontal_rel x_max" "horizontal_rel x_max"]
    by (auto intro: horizontal_rel_trans)
qed

lemma horizontal_sweep_rel:
  "list_all2 (horizontal_rel x_max) boxes (fst (horizontal_sweep x_max boxes))"
  using horizontal_fold_rel[of x_max "(boxes, False)"] by (simp add: horizontal_sweep_def)

lemma horizontal_pass_rel:
  "list_all2 (horizontal_rel x_max) boxes (horizontal_pass x_max boxes)"
proof (induction x_max boxes rule: horizontal_pass.induct)
  case (1 x_max boxes)
  obtain boxes' ch where sw: "horizontal_sweep x_max boxes = (boxes', ch)"
    by (cases "horizontal_sweep x_max boxes")
  have step: "list_all2 (horizontal_rel x_max) boxes boxes'"
    using horizontal_sweep_rel[of x_max boxes] sw by simp
  show ?case
  proof (cases ch)
    case False
    with sw step show ?thesis by (simp add: horizontal_pass.simps[of x_max boxes])
  next
    case True
    with "1.IH"[OF sw[symmetric]] have "list_all2 (horizontal_rel x_max) boxes' (horizontal_pass x_max boxes')"
      by simp
    with step have "list_all2 (horizontal_rel x_max) boxes (horizontal_pass x_max boxes')"
      using list_all2_trans[of "horizontal_rel x_max" "horizontal_rel x_max" "horizontal_rel x_max"]
      by (blast intro: horizontal_rel_trans)
    with sw True show ?thesis by (simp add: horizontal_pass.simps[of x_max boxes])
  qed
qed

lemma horizontal_fold_flag:
  "snd st \<Longrightarrow> snd (fold (horizontal_step x_max) is st)"
  by (induction "is" arbitrary: st) (simp_all add: horizontal_step_eq)

lemma horizontal_fold_stuck:
  "\<not> snd (fold (horizontal_step x_max) is st) \<Longrightarrow> \<forall>i\<in>set is. horizontal_stuck x_max i (fst st)"
proof (induction "is" arbitrary: st)
  case Nil
  then show ?case by simp
next
  case (Cons i "is")
  show ?case
  proof (cases "horizontal_stuck x_max i (fst st)")
    case True
    then have "horizontal_step x_max i st = st" by (simp add: horizontal_step_eq)
    with Cons.prems have "\<not> snd (fold (horizontal_step x_max) is st)" by simp
    from Cons.IH[OF this] True show ?thesis by simp
  next
    case False
    then have "snd (horizontal_step x_max i st)" by (simp add: horizontal_step_eq)
    then have "snd (fold (horizontal_step x_max) is (horizontal_step x_max i st))"
      by (rule horizontal_fold_flag)
    with Cons.prems show ?thesis by simp
  qed
qed

lemma horizontal_fold_id:
  "\<forall>i\<in>set is. horizontal_stuck x_max i (fst st) \<Longrightarrow> fold (horizontal_step x_max) is st = st"
  by (induction "is" arbitrary: st) (simp_all add: horizontal_step_eq)

lemma horizontal_sweep_fixed_iff:
  "horizontal_sweep x_max boxes = (boxes, False) \<longleftrightarrow>
   (\<forall>i<length boxes. horizontal_stuck x_max i boxes)"
proof
  assume "horizontal_sweep x_max boxes = (boxes, False)"
  then have "\<not> snd (fold (horizontal_step x_max) [0..<length boxes] (boxes, False))"
    by (simp add: horizontal_sweep_def)
  from horizontal_fold_stuck[OF this] show "\<forall>i<length boxes. horizontal_stuck x_max i boxes"
    by simp
next
  assume "\<forall>i<length boxes. horizontal_stuck x_max i boxes"
  then have "\<forall>i\<in>set [0..<length boxes]. horizontal_stuck x_max i (fst (boxes, False))"
    by simp
  from horizontal_fold_id[OF this] show "horizontal_sweep x_max boxes = (boxes, False)"
    by (simp add: horizontal_sweep_def)
qed

lemma horizontal_pass_fixed:
  "horizontal_sweep x_max (horizontal_pass x_max boxes) = (horizontal_pass x_max boxes, False)"
proof (induction x_max boxes rule: horizontal_pass.induct)
  case (1 x_max boxes)
  obtain boxes' ch where sw: "horizontal_sweep x_max boxes = (boxes', ch)"
    by (cases "horizontal_sweep x_max boxes")
  show ?case
  proof (cases ch)
    case False
    with sw have "boxes' = boxes" by (simp add: horizontal_sweep_unchanged)
    with sw False show ?thesis by (simp add: horizontal_pass.simps[of x_max boxes])
  next
    case True
    with "1.IH"[OF sw[symmetric]] sw show ?thesis
      by (simp add: horizontal_pass.simps[of x_max boxes])
  qed
qed

lemma horizontal_pass_id:
  "\<forall>i<length boxes. horizontal_stuck x_max i boxes \<Longrightarrow> horizontal_pass x_max boxes = boxes"
  by (simp add: horizontal_pass.simps[of x_max boxes] horizontal_sweep_fixed_iff[symmetric])

subsection \<open>Both loops are total\<close>

text \<open>
  The domain predicates of the two recursions hold everywhere, and one sweep either
  lowers the measure and hands over to the next sweep, or changes nothing and ends the
  loop.
\<close>

lemma vertical_pass_dom_all: "vertical_pass_dom (y_max, boxes)"
proof (induction "vertical_measure y_max boxes" arbitrary: boxes rule: less_induct)
  case less
  show ?case
  proof (rule vertical_pass.domintros)
    fix boxes' :: "region list"
    assume "(boxes', True) = vertical_sweep y_max boxes"
    then have "vertical_measure y_max boxes' < vertical_measure y_max boxes"
      by (simp add: vertical_sweep_decreases [OF sym])
    then show "vertical_pass_dom (y_max, boxes')" using less by blast
  qed
qed

lemma horizontal_pass_dom_all: "horizontal_pass_dom (x_max, boxes)"
proof (induction "horizontal_measure x_max boxes" arbitrary: boxes rule: less_induct)
  case less
  show ?case
  proof (rule horizontal_pass.domintros)
    fix boxes' :: "region list"
    assume "(boxes', True) = horizontal_sweep x_max boxes"
    then have "horizontal_measure x_max boxes' < horizontal_measure x_max boxes"
      by (simp add: horizontal_sweep_decreases [OF sym])
    then show "horizontal_pass_dom (x_max, boxes')" using less by blast
  qed
qed

lemma vertical_sweep_cases:
  "(snd (vertical_sweep y_max boxes) \<and>
      vertical_measure y_max (fst (vertical_sweep y_max boxes)) < vertical_measure y_max boxes \<and>
      vertical_pass y_max boxes = vertical_pass y_max (fst (vertical_sweep y_max boxes))) \<or>
   (\<not> snd (vertical_sweep y_max boxes) \<and> fst (vertical_sweep y_max boxes) = boxes \<and>
      vertical_pass y_max boxes = boxes)"
proof -
  obtain boxes' ch where sw: "vertical_sweep y_max boxes = (boxes', ch)"
    by (cases "vertical_sweep y_max boxes")
  show ?thesis
  proof (cases ch)
    case True
    with sw vertical_sweep_decreases[of y_max boxes boxes'] show ?thesis
      by (simp add: vertical_pass.simps[of y_max boxes])
  next
    case False
    with sw vertical_sweep_unchanged[of y_max boxes boxes'] show ?thesis
      by (simp add: vertical_pass.simps[of y_max boxes])
  qed
qed

lemma horizontal_sweep_cases:
  "(snd (horizontal_sweep x_max boxes) \<and>
      horizontal_measure x_max (fst (horizontal_sweep x_max boxes)) < horizontal_measure x_max boxes \<and>
      horizontal_pass x_max boxes = horizontal_pass x_max (fst (horizontal_sweep x_max boxes))) \<or>
   (\<not> snd (horizontal_sweep x_max boxes) \<and> fst (horizontal_sweep x_max boxes) = boxes \<and>
      horizontal_pass x_max boxes = boxes)"
proof -
  obtain boxes' ch where sw: "horizontal_sweep x_max boxes = (boxes', ch)"
    by (cases "horizontal_sweep x_max boxes")
  show ?thesis
  proof (cases ch)
    case True
    with sw horizontal_sweep_decreases[of x_max boxes boxes'] show ?thesis
      by (simp add: horizontal_pass.simps[of x_max boxes])
  next
    case False
    with sw horizontal_sweep_unchanged[of x_max boxes boxes'] show ?thesis
      by (simp add: horizontal_pass.simps[of x_max boxes])
  qed
qed

subsection \<open>The merged list, index by index\<close>

lemma adjust_length:
  "length (adjust_bounding_boxes_final boxes (a, b, x_max, y_max)) = length boxes"
  using list_all2_lengthD[OF vertical_pass_rel[of y_max boxes]]
        list_all2_lengthD[OF horizontal_pass_rel[of x_max boxes]]
  by (simp add: adjust_bounding_boxes_final_def)

lemma adjust_nth:
  assumes "i < length boxes"
  shows "adjust_bounding_boxes_final boxes (a, b, x_max, y_max) ! i =
           final_box (vertical_pass y_max boxes ! i) (horizontal_pass x_max boxes ! i)"
  using assms list_all2_lengthD[OF vertical_pass_rel[of y_max boxes]]
        list_all2_lengthD[OF horizontal_pass_rel[of x_max boxes]]
  by (simp add: adjust_bounding_boxes_final_def)

lemma vertical_pass_nth:
  "i < length boxes \<Longrightarrow> vertical_rel y_max (boxes ! i) (vertical_pass y_max boxes ! i)"
  using vertical_pass_rel[of y_max boxes] by (simp add: list_all2_conv_all_nth)

lemma horizontal_pass_nth:
  "i < length boxes \<Longrightarrow> horizontal_rel x_max (boxes ! i) (horizontal_pass x_max boxes ! i)"
  using horizontal_pass_rel[of x_max boxes] by (simp add: list_all2_conv_all_nth)

subsection \<open>Boxes that are apart stay apart within one pass\<close>

text \<open>
  \<open>strictOverlap\<close> is overlap with positive area (open intervals on both axes); two
  rectangles that only touch along an edge or a corner overlap by \<open>rectOverlap\<close> but not
  by \<open>strictOverlap\<close>. A step moves a box only when \<open>rectOverlap\<close> finds no other box on
  it, and then by one pixel, so the moved box can at most come to touch another one.
\<close>

lemma intersection_found_iff:
  "intersection_found i boxes \<longleftrightarrow>
     (\<exists>j<length boxes. i \<noteq> j \<and> rectOverlap (boxes ! i) (boxes ! j))"
  by (auto simp: intersection_found_def list_ex_iff)

definition strictOverlap :: "'a rectangle_scheme \<Rightarrow> 'b rectangle_scheme \<Rightarrow> bool" where
  "strictOverlap a b \<longleftrightarrow> x1 a < x2 b \<and> x1 b < x2 a \<and> y1 a < y2 b \<and> y1 b < y2 a"

definition keeps_apart :: "region list \<Rightarrow> region list \<Rightarrow> bool" where
  "keeps_apart boxes boxes' \<longleftrightarrow>
     length boxes' = length boxes \<and>
     (\<forall>i<length boxes. \<forall>j<length boxes. i \<noteq> j \<longrightarrow>
        \<not> strictOverlap (boxes ! i) (boxes ! j) \<longrightarrow> \<not> strictOverlap (boxes' ! i) (boxes' ! j))"

lemma keeps_apart_refl: "keeps_apart boxes boxes"
  by (simp add: keeps_apart_def)

lemma keeps_apart_trans:
  "keeps_apart a b \<Longrightarrow> keeps_apart b c \<Longrightarrow> keeps_apart a c"
  by (simp add: keeps_apart_def)

lemma vertical_grow_apart:
  "\<not> rectOverlap a c \<Longrightarrow>
   \<not> strictOverlap (vertical_grow y_max a) c \<and> \<not> strictOverlap c (vertical_grow y_max a)"
  by (auto simp: rectOverlap_def valueInRange_def strictOverlap_def vertical_grow_def Let_def
           split: if_splits)

lemma vertical_step_apart:
  assumes "i < length (fst st)"
  shows "keeps_apart (fst st) (fst (vertical_step y_max i st))"
proof (cases "vertical_stuck y_max i (fst st)")
  case True
  then show ?thesis by (simp add: vertical_step_eq keeps_apart_refl)
next
  case False
  let ?bs = "fst st"
  from False have free: "\<And>j. j < length ?bs \<Longrightarrow> i \<noteq> j \<Longrightarrow> \<not> rectOverlap (?bs ! i) (?bs ! j)"
    by (auto simp: vertical_stuck_def intersection_found_iff)
  have "\<not> strictOverlap (?bs[i := vertical_grow y_max (?bs ! i)] ! k)
                          (?bs[i := vertical_grow y_max (?bs ! i)] ! j)"
    if "k < length ?bs" "j < length ?bs" "k \<noteq> j" "\<not> strictOverlap (?bs ! k) (?bs ! j)" for k j
  proof (cases "k = i")
    case True
    with that free[of j] vertical_grow_apart[of "?bs ! i" "?bs ! j" y_max] show ?thesis
      by simp
  next
    case ki: False
    show ?thesis
    proof (cases "j = i")
      case True
      with that ki free[of k] vertical_grow_apart[of "?bs ! i" "?bs ! k" y_max] show ?thesis
        by simp
    next
      case False
      with ki that show ?thesis by simp
    qed
  qed
  with False show ?thesis by (simp add: vertical_step_eq keeps_apart_def)
qed

lemma vertical_fold_apart:
  assumes "\<forall>i\<in>set is. i < length (fst st)"
  shows "keeps_apart (fst st) (fst (fold (vertical_step y_max) is st))"
  using assms
proof (induction "is" arbitrary: st)
  case Nil
  then show ?case by (simp add: keeps_apart_refl)
next
  case (Cons i "is")
  let ?st' = "vertical_step y_max i st"
  from Cons.prems have "keeps_apart (fst st) (fst ?st')"
    by (simp add: vertical_step_apart)
  moreover from Cons.prems have "\<forall>k\<in>set is. k < length (fst ?st')"
    by (simp add: vertical_step_length)
  then have "keeps_apart (fst ?st') (fst (fold (vertical_step y_max) is ?st'))"
    by (rule Cons.IH)
  ultimately show ?case by (auto intro: keeps_apart_trans)
qed

lemma vertical_sweep_apart:
  "keeps_apart boxes (fst (vertical_sweep y_max boxes))"
  using vertical_fold_apart[of "[0..<length boxes]" "(boxes, False)" y_max]
  by (simp add: vertical_sweep_def)

lemma vertical_pass_apart:
  "keeps_apart boxes (vertical_pass y_max boxes)"
proof (induction y_max boxes rule: vertical_pass.induct)
  case (1 y_max boxes)
  obtain boxes' ch where sw: "vertical_sweep y_max boxes = (boxes', ch)"
    by (cases "vertical_sweep y_max boxes")
  have step: "keeps_apart boxes boxes'"
    using vertical_sweep_apart[of boxes y_max] sw by simp
  show ?case
  proof (cases ch)
    case False
    with sw step show ?thesis by (simp add: vertical_pass.simps[of y_max boxes])
  next
    case True
    with "1.IH"[OF sw[symmetric]] have "keeps_apart boxes' (vertical_pass y_max boxes')"
      by simp
    with step have "keeps_apart boxes (vertical_pass y_max boxes')"
      by (rule keeps_apart_trans)
    with sw True show ?thesis by (simp add: vertical_pass.simps[of y_max boxes])
  qed
qed

lemma horizontal_grow_apart:
  "\<not> rectOverlap a c \<Longrightarrow>
   \<not> strictOverlap (horizontal_grow x_max a) c \<and> \<not> strictOverlap c (horizontal_grow x_max a)"
  by (auto simp: rectOverlap_def valueInRange_def strictOverlap_def horizontal_grow_def Let_def
           split: if_splits)

lemma horizontal_step_apart:
  assumes "i < length (fst st)"
  shows "keeps_apart (fst st) (fst (horizontal_step x_max i st))"
proof (cases "horizontal_stuck x_max i (fst st)")
  case True
  then show ?thesis by (simp add: horizontal_step_eq keeps_apart_refl)
next
  case False
  let ?bs = "fst st"
  from False have free: "\<And>j. j < length ?bs \<Longrightarrow> i \<noteq> j \<Longrightarrow> \<not> rectOverlap (?bs ! i) (?bs ! j)"
    by (auto simp: horizontal_stuck_def intersection_found_iff)
  have "\<not> strictOverlap (?bs[i := horizontal_grow x_max (?bs ! i)] ! k)
                          (?bs[i := horizontal_grow x_max (?bs ! i)] ! j)"
    if "k < length ?bs" "j < length ?bs" "k \<noteq> j" "\<not> strictOverlap (?bs ! k) (?bs ! j)" for k j
  proof (cases "k = i")
    case True
    with that free[of j] horizontal_grow_apart[of "?bs ! i" "?bs ! j" x_max] show ?thesis
      by simp
  next
    case ki: False
    show ?thesis
    proof (cases "j = i")
      case True
      with that ki free[of k] horizontal_grow_apart[of "?bs ! i" "?bs ! k" x_max] show ?thesis
        by simp
    next
      case False
      with ki that show ?thesis by simp
    qed
  qed
  with False show ?thesis by (simp add: horizontal_step_eq keeps_apart_def)
qed

lemma horizontal_fold_apart:
  assumes "\<forall>i\<in>set is. i < length (fst st)"
  shows "keeps_apart (fst st) (fst (fold (horizontal_step x_max) is st))"
  using assms
proof (induction "is" arbitrary: st)
  case Nil
  then show ?case by (simp add: keeps_apart_refl)
next
  case (Cons i "is")
  let ?st' = "horizontal_step x_max i st"
  from Cons.prems have "keeps_apart (fst st) (fst ?st')"
    by (simp add: horizontal_step_apart)
  moreover from Cons.prems have "\<forall>k\<in>set is. k < length (fst ?st')"
    by (simp add: horizontal_step_length)
  then have "keeps_apart (fst ?st') (fst (fold (horizontal_step x_max) is ?st'))"
    by (rule Cons.IH)
  ultimately show ?case by (auto intro: keeps_apart_trans)
qed

lemma horizontal_sweep_apart:
  "keeps_apart boxes (fst (horizontal_sweep x_max boxes))"
  using horizontal_fold_apart[of "[0..<length boxes]" "(boxes, False)" x_max]
  by (simp add: horizontal_sweep_def)

lemma horizontal_pass_apart:
  "keeps_apart boxes (horizontal_pass x_max boxes)"
proof (induction x_max boxes rule: horizontal_pass.induct)
  case (1 x_max boxes)
  obtain boxes' ch where sw: "horizontal_sweep x_max boxes = (boxes', ch)"
    by (cases "horizontal_sweep x_max boxes")
  have step: "keeps_apart boxes boxes'"
    using horizontal_sweep_apart[of boxes x_max] sw by simp
  show ?case
  proof (cases ch)
    case False
    with sw step show ?thesis by (simp add: horizontal_pass.simps[of x_max boxes])
  next
    case True
    with "1.IH"[OF sw[symmetric]] have "keeps_apart boxes' (horizontal_pass x_max boxes')"
      by simp
    with step have "keeps_apart boxes (horizontal_pass x_max boxes')"
      by (rule keeps_apart_trans)
    with sw True show ?thesis by (simp add: horizontal_pass.simps[of x_max boxes])
  qed
qed

subsection \<open>A second run finds every box stuck\<close>

text \<open>
  For rectangles with \<open>x1 \<le> x2\<close> and \<open>y1 \<le> y2\<close>, \<open>rectOverlap\<close> is the usual interval
  test and survives growing either rectangle. The merged box covers both the box of the
  vertical copy and the box of the horizontal copy, so whatever stopped a box in either
  pass still stops it in the merged list.
\<close>

definition well_formed :: "'a rectangle_scheme \<Rightarrow> bool" where
  "well_formed r \<longleftrightarrow> x1 r \<le> x2 r \<and> y1 r \<le> y2 r"

definition covers :: "'a rectangle_scheme \<Rightarrow> 'b rectangle_scheme \<Rightarrow> bool" where
  "covers outer inner \<longleftrightarrow>
     x1 outer \<le> x1 inner \<and> x2 inner \<le> x2 outer \<and>
     y1 outer \<le> y1 inner \<and> y2 inner \<le> y2 outer"

lemma rectOverlap_mono:
  assumes "well_formed a" "well_formed b" "covers a' a" "covers b' b" "rectOverlap a b"
  shows "rectOverlap a' b'"
proof -
  from assms have "x1 a \<le> x2 b \<and> x1 b \<le> x2 a \<and> y1 a \<le> y2 b \<and> y1 b \<le> y2 a"
    by (auto simp: rectOverlap_def valueInRange_def well_formed_def Let_def)
  with assms(3,4) have "x1 a' \<le> x2 b' \<and> x1 b' \<le> x2 a' \<and> y1 a' \<le> y2 b' \<and> y1 b' \<le> y2 a'"
    by (auto simp: covers_def)
  then show ?thesis
    by (auto simp: rectOverlap_def valueInRange_def Let_def)
qed

lemma final_box_same: "final_box r r = r"
  by (simp add: final_box_def)

lemma map2_final_box_same: "map2 final_box boxes boxes = boxes"
  by (induction boxes) (simp_all add: final_box_same)

lemma final_over_vertical:
  assumes "well_formed b" "vertical_rel y_max b v" "horizontal_rel x_max b h"
  shows "well_formed v \<and> covers (final_box v h) v \<and> label (final_box v h) = label v \<and>
         y1 (final_box v h) = y1 v \<and> y2 (final_box v h) = y2 v"
  using assms
  by (auto simp: well_formed_def covers_def final_box_def vertical_rel_def horizontal_rel_def)

lemma final_over_horizontal:
  assumes "well_formed b" "vertical_rel y_max b v" "horizontal_rel x_max b h"
  shows "well_formed h \<and> covers (final_box v h) h \<and> label (final_box v h) = label h \<and>
         x1 (final_box v h) = x1 h \<and> x2 (final_box v h) = x2 h"
  using assms
  by (auto simp: well_formed_def covers_def final_box_def vertical_rel_def horizontal_rel_def)

lemma adjust_fixed:
  assumes wf: "\<forall>r\<in>set boxes. well_formed r"
  shows "adjust_bounding_boxes_final (adjust_bounding_boxes_final boxes (a, b, x_max, y_max))
           (a, b, x_max, y_max) = adjust_bounding_boxes_final boxes (a, b, x_max, y_max)"
proof -
  let ?M = "adjust_bounding_boxes_final boxes (a, b, x_max, y_max)"
  let ?V = "vertical_pass y_max boxes"
  let ?H = "horizontal_pass x_max boxes"
  have lenM: "length ?M = length boxes" by (rule adjust_length)
  have lenV: "length ?V = length boxes"
    using list_all2_lengthD[OF vertical_pass_rel[of y_max boxes]] by simp
  have lenH: "length ?H = length boxes"
    using list_all2_lengthD[OF horizontal_pass_rel[of x_max boxes]] by simp
  have overV: "well_formed (?V ! i) \<and> covers (?M ! i) (?V ! i) \<and> label (?M ! i) = label (?V ! i) \<and>
         y1 (?M ! i) = y1 (?V ! i) \<and> y2 (?M ! i) = y2 (?V ! i)" if "i < length boxes" for i
    using final_over_vertical[OF _ vertical_pass_nth[OF that] horizontal_pass_nth[OF that]]
      wf that by (simp add: adjust_nth[OF that])
  have overH: "well_formed (?H ! i) \<and> covers (?M ! i) (?H ! i) \<and> label (?M ! i) = label (?H ! i) \<and>
         x1 (?M ! i) = x1 (?H ! i) \<and> x2 (?M ! i) = x2 (?H ! i)" if "i < length boxes" for i
    using final_over_horizontal[OF _ vertical_pass_nth[OF that] horizontal_pass_nth[OF that]]
      wf that by (simp add: adjust_nth[OF that])
  have stuckV: "vertical_stuck y_max i ?M" if i: "i < length boxes" for i
  proof -
    from vertical_pass_fixed[of y_max boxes] i lenV have "vertical_stuck y_max i ?V"
      by (simp add: vertical_sweep_fixed_iff)
    then consider (pic) "pictorial (label (?V ! i))"
      | (hit) "intersection_found i ?V"
      | (full) "\<not> y2 (?V ! i) < y_max \<and> \<not> y1 (?V ! i) > 0"
      by (auto simp: vertical_stuck_def)
    then show ?thesis
    proof cases
      case pic
      with overV[OF i] show ?thesis by (simp add: vertical_stuck_def)
    next
      case hit
      then obtain j where j: "j < length boxes" "i \<noteq> j" "rectOverlap (?V ! i) (?V ! j)"
        by (auto simp: intersection_found_iff lenV)
      from overV[OF i] overV[OF j(1)] j(3) have "rectOverlap (?M ! i) (?M ! j)"
        by (blast intro: rectOverlap_mono)
      with j(1,2) have "intersection_found i ?M"
        by (auto simp: intersection_found_iff lenM)
      then show ?thesis by (simp add: vertical_stuck_def)
    next
      case full
      with overV[OF i] show ?thesis by (simp add: vertical_stuck_def)
    qed
  qed
  have stuckH: "horizontal_stuck x_max i ?M" if i: "i < length boxes" for i
  proof -
    from horizontal_pass_fixed[of x_max boxes] i lenH have "horizontal_stuck x_max i ?H"
      by (simp add: horizontal_sweep_fixed_iff)
    then consider (pic) "pictorial (label (?H ! i))"
      | (hit) "intersection_found i ?H"
      | (full) "\<not> x1 (?H ! i) > 0 \<and> \<not> x2 (?H ! i) < x_max"
      by (auto simp: horizontal_stuck_def)
    then show ?thesis
    proof cases
      case pic
      with overH[OF i] show ?thesis by (simp add: horizontal_stuck_def)
    next
      case hit
      then obtain j where j: "j < length boxes" "i \<noteq> j" "rectOverlap (?H ! i) (?H ! j)"
        by (auto simp: intersection_found_iff lenH)
      from overH[OF i] overH[OF j(1)] j(3) have "rectOverlap (?M ! i) (?M ! j)"
        by (blast intro: rectOverlap_mono)
      with j(1,2) have "intersection_found i ?M"
        by (auto simp: intersection_found_iff lenM)
      then show ?thesis by (simp add: horizontal_stuck_def)
    next
      case full
      with overH[OF i] show ?thesis by (simp add: horizontal_stuck_def)
    qed
  qed
  have "vertical_pass y_max ?M = ?M"
    by (rule vertical_pass_id) (simp add: lenM stuckV)
  moreover have "horizontal_pass x_max ?M = ?M"
    by (rule horizontal_pass_id) (simp add: lenM stuckH)
  ultimately show ?thesis
    using map2_final_box_same[of ?M]
    by (simp add: adjust_bounding_boxes_final_def[of ?M])
qed

section \<open>Consolidator\<close>

text \<open>
  \<^verbatim>\<open>consolidate_regions(sparse_line_regions, layout_regions)\<close> collects, over all pairs,
  the indices of the layout regions to delete, and returns the sparse regions whose
  index is not in \<^verbatim>\<open>to_delete_from_sparse\<close> (a set that nothing is ever added to)
  followed by the layout regions whose index is not in \<^verbatim>\<open>to_delete_from_layout\<close>.
  On integer coordinates \<^verbatim>\<open>int(v)\<close> is \<open>v\<close>.
\<close>

definition supersedes :: "labelled \<Rightarrow> labelled \<Rightarrow> bool" where
  "supersedes primary_box secondary_box \<longleftrightarrow>
     (label primary_box \<in> set [''Title'', ''Section-header'', ''Page-header'', ''List-item'']
      \<and> rectOverlap primary_box secondary_box
      \<and> 2 * \<bar>y1 primary_box - y2 primary_box\<bar> > \<bar>y1 secondary_box - y2 secondary_box\<bar>)
     \<or> (label primary_box \<in> set [''Table'', ''Caption'', ''Footnote'', ''Page-footer'']
      \<and> full_encapsulation primary_box secondary_box)"

definition to_delete_from_layout :: "labelled list \<Rightarrow> labelled list \<Rightarrow> nat set" where
  "to_delete_from_layout sparse_line_regions layout_regions =
     fold (\<lambda>(i, primary_box).
             fold (\<lambda>(j, secondary_box) acc.
                     if supersedes primary_box secondary_box then insert j acc else acc)
                  (enumerate 0 layout_regions))
          (enumerate 0 sparse_line_regions) {}"

definition consolidate_regions :: "labelled list \<Rightarrow> labelled list \<Rightarrow> labelled list" where
  "consolidate_regions sparse_line_regions layout_regions =
     (let to_delete_layout = to_delete_from_layout sparse_line_regions layout_regions;
          to_delete_from_sparse = {}
      in map snd (filter (\<lambda>(i, box). i \<notin> to_delete_from_sparse)
                         (enumerate 0 sparse_line_regions)) @
         map snd (filter (\<lambda>(i, box). i \<notin> to_delete_layout)
                         (enumerate 0 layout_regions)))"

text \<open>The two rules as the specification words them, for one sparse and one layout region.\<close>

definition structural_rule :: "labelled \<Rightarrow> labelled \<Rightarrow> bool" where
  "structural_rule sparse layout \<longleftrightarrow>
     label sparse \<in> {''Title'', ''Section-header'', ''Page-header'', ''List-item''} \<and>
     rectOverlap sparse layout \<and>
     2 * \<bar>y2 sparse - y1 sparse\<bar> > \<bar>y2 layout - y1 layout\<bar>"

definition encapsulating_rule :: "labelled \<Rightarrow> labelled \<Rightarrow> bool" where
  "encapsulating_rule sparse layout \<longleftrightarrow>
     label sparse \<in> {''Table'', ''Caption'', ''Footnote'', ''Page-footer''} \<and>
     x1 sparse \<le> x1 layout \<and> x1 layout < x2 layout \<and> x2 layout \<le> x2 sparse \<and>
     y1 sparse \<le> y1 layout \<and> y1 layout < y2 layout \<and> y2 layout \<le> y2 sparse"

section \<open>ID assigner and degeneracy guard\<close>

definition assign_boxIDs :: "labelled list \<Rightarrow> identified list" where
  "assign_boxIDs bounding_boxes =
     map (\<lambda>(i, bbox). \<lparr>x1 = x1 bbox, y1 = y1 bbox, x2 = x2 bbox, y2 = y2 bbox,
                        label = label bbox, box_id = i\<rparr>)
         (enumerate 0 bounding_boxes)"

text \<open>
  Python's \<^verbatim>\<open>min\<close> and \<^verbatim>\<open>max\<close> over a non-empty sequence: the first item, replaced by
  every later item that is strictly smaller (larger). On an empty sequence they raise;
  the guard calls them on a list of at least 255 regions only.
\<close>

definition py_min :: "int \<Rightarrow> int list \<Rightarrow> int" where
  "py_min first rest = fold (\<lambda>v m. if v < m then v else m) rest first"

definition py_max :: "int \<Rightarrow> int list \<Rightarrow> int" where
  "py_max first rest = fold (\<lambda>v m. if v > m then v else m) rest first"

definition degeneracy_guard :: "identified list \<Rightarrow> identified list" where
  "degeneracy_guard consolidated_regions_with_ids =
     (if length consolidated_regions_with_ids \<ge> 255 then
        (case consolidated_regions_with_ids of
           [] \<Rightarrow> consolidated_regions_with_ids
         | b # bs \<Rightarrow>
             [\<lparr>x1 = py_min (x1 b) (map x1 bs), y1 = py_min (y1 b) (map y1 bs),
               x2 = py_max (x2 b) (map x2 bs), y2 = py_max (y2 b) (map y2 bs),
               label = ''Text'', box_id = 0\<rparr>])
      else consolidated_regions_with_ids)"

section \<open>Order reconciler\<close>

text \<open>
  An entry of \<^verbatim>\<open>order_prediction.bboxes\<close> is its \<^verbatim>\<open>bbox\<close> paired with its
  \<^verbatim>\<open>position\<close>. The dictionary comprehension stores the regions in list order under
  their coordinate tuples, so a later region replaces an earlier one stored under the
  same key. \<^verbatim>\<open>list.sort\<close> is stable, as \<open>sort_key\<close> is.
\<close>

type_synonym order_box = "coords \<times> int"

definition coord_to_box_map :: "identified list \<Rightarrow> (coords \<rightharpoonup> identified)" where
  "coord_to_box_map boxes = fold (\<lambda>box m. m(coords_of box \<mapsto> box)) boxes Map.empty"

definition with_position :: "identified \<Rightarrow> int \<Rightarrow> region" where
  "with_position original_box pos =
     \<lparr>x1 = x1 original_box, y1 = y1 original_box, x2 = x2 original_box,
      y2 = y2 original_box, label = label original_box, box_id = box_id original_box,
      position = pos\<rparr>"

definition matched_regions :: "identified list \<Rightarrow> order_box list \<Rightarrow> region list" where
  "matched_regions boxes order_bboxes =
     concat (map (\<lambda>(bbox_tuple, pos).
                    case coord_to_box_map boxes bbox_tuple of
                      Some original_box \<Rightarrow> [with_position original_box pos]
                    | None \<Rightarrow> [])
                 order_bboxes)"

definition order_reconcile :: "identified list \<Rightarrow> order_box list \<Rightarrow> region list" where
  "order_reconcile boxes order_bboxes = sort_key position (matched_regions boxes order_bboxes)"

section \<open>Table decomposer\<close>

text \<open>
  The table stage of \<^verbatim>\<open>get_layout\<close>, for one page. The recognition model is outside the
  repository: \<^verbatim>\<open>batch_table_recognition\<close> is a parameter that receives the table crops
  (a crop of the page image is given by its rectangle) and the candidate cells, and
  either returns one list of cells per table or raises, which is the value \<open>Inl\<close> of
  the message. A returned cell has a \<^verbatim>\<open>bbox\<close>, a \<^verbatim>\<open>row_id\<close> and a \<^verbatim>\<open>col_id\<close>. The
  page's final list holds whole regions and cell entries
  \<^verbatim>\<open>[x1, y1, x2, y2, 'a', filename, row_id, col_id]\<close>.
\<close>

record table_cell =
  bbox :: rectangle
  row_id :: int
  col_id :: int

datatype final_region =
  Region region
  | CellRegion labelled string int int

type_synonym table_predictor = "coords list \<Rightarrow> rectangle list list \<Rightarrow> string + table_cell list list"

text \<open>\<^verbatim>\<open>str\<close> of an integer, for the file name of a cell.\<close>

fun str_nat :: "nat \<Rightarrow> string" where
  "str_nat n =
     (if n < 10 then [char_of (48 + n)] else str_nat (n div 10) @ [char_of (48 + n mod 10)])"

declare str_nat.simps [simp del]

definition str_int :: "int \<Rightarrow> string" where
  "str_int i = (if i < 0 then CHR ''-'' # str_nat (nat (- i)) else str_nat (nat i))"

text \<open>
  The two translations: a line box inside a table is moved into the table's frame when
  the candidate cells are built, and a cell the model returns is moved back into the
  page's frame when it is emitted.
\<close>

definition to_table_local :: "int \<times> int \<Rightarrow> rectangle \<Rightarrow> rectangle" where
  "to_table_local origin cell_bbox =
     (case origin of (x1', y1') \<Rightarrow>
        \<lparr>x1 = x1 cell_bbox - x1', y1 = y1 cell_bbox - y1',
         x2 = x2 cell_bbox - x1', y2 = y2 cell_bbox - y1'\<rparr>)"

definition to_page_absolute :: "int \<times> int \<Rightarrow> rectangle \<Rightarrow> rectangle" where
  "to_page_absolute origin cell_bbox =
     (case origin of (table_x1, table_y1) \<Rightarrow>
        \<lparr>x1 = x1 cell_bbox + table_x1, y1 = y1 cell_bbox + table_y1,
         x2 = x2 cell_bbox + table_x1, y2 = y2 cell_bbox + table_y1\<rparr>)"

text \<open>
  The first loop over the expanded regions: a table is set aside with its crop, its
  candidate cells and its position; every other region goes to \<^verbatim>\<open>final_regions\<close>.
\<close>

record table_work =
  final_regions :: "final_region list"
  table_images :: "coords list"
  table_cells_list :: "rectangle list list"
  table_positions :: "(int \<times> coords) list"

definition collect_region :: "rectangle list \<Rightarrow> region \<Rightarrow> table_work \<Rightarrow> table_work" where
  "collect_region line_bboxes region w =
     (if label region = ''Table'' then
        let cells_in_table = filter (\<lambda>cell. full_encapsulation region cell) line_bboxes;
            table_cells = map (to_table_local (x1 region, y1 region)) cells_in_table
        in w\<lparr>table_images := table_images w @ [coords_of region],
             table_cells_list := table_cells_list w @ [table_cells],
             table_positions := table_positions w @ [(position region, coords_of region)]\<rparr>
      else w\<lparr>final_regions := final_regions w @ [Region region]\<rparr>)"

definition collect_tables :: "rectangle list \<Rightarrow> region list \<Rightarrow> table_work" where
  "collect_tables line_bboxes regions =
     fold (collect_region line_bboxes) regions
       \<lparr>final_regions = [], table_images = [], table_cells_list = [], table_positions = []\<rparr>"

definition emit_cell :: "nat \<Rightarrow> int \<Rightarrow> int \<times> int \<Rightarrow> table_cell \<Rightarrow> final_region" where
  "emit_cell page_number pos origin cell =
     (let r = to_page_absolute origin (bbox cell);
          filename = str_nat page_number @ ''_'' @ str_int pos @ ''_a_'' @
                     str_int (row_id cell) @ ''_'' @ str_int (col_id cell) @ ''.png''
      in CellRegion \<lparr>x1 = x1 r, y1 = y1 r, x2 = x2 r, y2 = y2 r, label = ''a''\<rparr>
           filename (row_id cell) (col_id cell))"

definition emit_tables ::
  "nat \<Rightarrow> table_cell list list \<Rightarrow> (int \<times> coords) list \<Rightarrow> final_region list" where
  "emit_tables page_number table_results positions =
     concat (map2 (\<lambda>table_result (pos, (table_x1, table_y1, _, _)).
                     map (emit_cell page_number pos (table_x1, table_y1)) table_result)
                  table_results positions)"

definition table_stage ::
  "table_predictor \<Rightarrow> nat \<Rightarrow> rectangle list \<Rightarrow> region list \<Rightarrow> final_region list" where
  "table_stage batch_table_recognition page_number line_bboxes regions =
     (let w = collect_tables line_bboxes regions in
      if table_images w \<noteq> [] then
        (case batch_table_recognition (table_images w) (table_cells_list w) of
           Inr table_results \<Rightarrow>
             final_regions w @ emit_tables page_number table_results (table_positions w)
         | Inl e \<Rightarrow>
             final_regions w @ map Region (filter (\<lambda>region. label region = ''Table'') regions))
      else final_regions w)"

section \<open>Properties of the consolidator\<close>

text \<open>
  An index is marked exactly when it is the index of a layout region that some sparse
  region supersedes, and the test of the source is the disjunction of the two rules.
\<close>

lemma inner_marks:
  "j \<in> fold (\<lambda>(j, secondary_box) acc.
               if supersedes p secondary_box then insert j acc else acc) xs acc \<longleftrightarrow>
     j \<in> acc \<or> (\<exists>s. (j, s) \<in> set xs \<and> supersedes p s)"
proof (induction xs arbitrary: acc)
  case Nil
  then show ?case by simp
next
  case (Cons a xs)
  obtain j' s' where a: "a = (j', s')" by (cases a)
  show ?case
  proof (cases "supersedes p s'")
    case True
    then show ?thesis unfolding a by (simp add: Cons.IH) blast
  next
    case False
    then show ?thesis unfolding a by (simp add: Cons.IH) blast
  qed
qed

lemma outer_marks:
  "j \<in> fold (\<lambda>(i, primary_box).
               fold (\<lambda>(j, secondary_box) acc.
                       if supersedes primary_box secondary_box then insert j acc else acc) xs)
            ps acc \<longleftrightarrow>
     j \<in> acc \<or> (\<exists>p\<in>snd ` set ps. \<exists>s. (j, s) \<in> set xs \<and> supersedes p s)"
proof (induction ps arbitrary: acc)
  case Nil
  then show ?case by simp
next
  case (Cons a ps)
  obtain i p where a: "a = (i, p)" by (cases a)
  have "j \<in> fold (\<lambda>(i, primary_box).
               fold (\<lambda>(j, secondary_box) acc.
                       if supersedes primary_box secondary_box then insert j acc else acc) xs)
            (a # ps) acc \<longleftrightarrow>
        (j \<in> acc \<or> (\<exists>s. (j, s) \<in> set xs \<and> supersedes p s)) \<or>
        (\<exists>p\<in>snd ` set ps. \<exists>s. (j, s) \<in> set xs \<and> supersedes p s)"
    unfolding a by (simp only: fold_simps prod.case Cons.IH inner_marks)
  also have "\<dots> \<longleftrightarrow> j \<in> acc \<or>
        (\<exists>p\<in>snd ` set (a # ps). \<exists>s. (j, s) \<in> set xs \<and> supersedes p s)"
    unfolding a by simp
  finally show ?case .
qed

lemma to_delete_from_layout_iff:
  "j \<in> to_delete_from_layout sparse layout \<longleftrightarrow>
     j < length layout \<and> (\<exists>p\<in>set sparse. supersedes p (layout ! j))"
proof -
  have "snd ` set (enumerate 0 sparse) = set sparse"
    using set_map[of snd "enumerate 0 sparse"] by (simp only: map_snd_enumerate)
  moreover have "(\<exists>s. (j, s) \<in> set (enumerate 0 layout) \<and> supersedes p s) \<longleftrightarrow>
      j < length layout \<and> supersedes p (layout ! j)" for p
    by (simp add: in_set_enumerate_eq)
  ultimately show ?thesis
    unfolding to_delete_from_layout_def outer_marks by simp
qed

lemma keep_all_enumerated:
  "map snd (filter (\<lambda>(i, box). i \<notin> {}) (enumerate n xs)) = xs"
  by (simp add: case_prod_unfold)

lemma keep_by_value:
  assumes "\<And>i b. (i, b) \<in> set (enumerate n xs) \<Longrightarrow> P i \<longleftrightarrow> Q b"
  shows "map snd (filter (\<lambda>(i, box). P i) (enumerate n xs)) = filter Q xs"
proof -
  have "filter (\<lambda>(i, box). P i) (enumerate n xs) = filter (Q \<circ> snd) (enumerate n xs)"
    using assms by (intro filter_cong) auto
  then show ?thesis by (simp add: filter_map[symmetric])
qed

lemma supersedes_rules:
  "supersedes s l \<longleftrightarrow> structural_rule s l \<or> encapsulating_rule s l"
proof -
  have "\<bar>y1 s - y2 s\<bar> = \<bar>y2 s - y1 s\<bar>" "\<bar>y1 l - y2 l\<bar> = \<bar>y2 l - y1 l\<bar>"
    by (rule abs_minus_commute)+
  then show ?thesis
    unfolding supersedes_def structural_rule_def encapsulating_rule_def full_encapsulation_def
    by simp
qed

section \<open>Properties of the degeneracy guard\<close>

lemma py_min_Min: "py_min first rest = Min (set (first # rest))"
proof -
  have "(\<lambda>v m. if v < m then v else m) = (min :: int \<Rightarrow> int \<Rightarrow> int)"
    by (auto simp: fun_eq_iff min_def)
  then show ?thesis unfolding py_min_def Min.set_eq_fold by simp
qed

lemma py_max_Max: "py_max first rest = Max (set (first # rest))"
proof -
  have "(\<lambda>v m. if v > m then v else m) = (max :: int \<Rightarrow> int \<Rightarrow> int)"
    by (auto simp: fun_eq_iff max_def)
  then show ?thesis unfolding py_max_def Max.set_eq_fold by simp
qed

section \<open>Properties of the order reconciler\<close>

text \<open>
  \<open>matching_pairs\<close> pairs every entry of the prediction with every region of equal
  coordinates. \<open>last_matching_pairs\<close> pairs it with the last such region of the list
  only, which is what the dictionary holds under that key.
\<close>

fun last_match :: "coords \<Rightarrow> identified list \<Rightarrow> identified option" where
  "last_match k [] = None"
| "last_match k (b # bs) =
     (case last_match k bs of
        Some r \<Rightarrow> Some r
      | None \<Rightarrow> if coords_of b = k then Some b else None)"

definition matching_pairs :: "identified list \<Rightarrow> order_box list \<Rightarrow> (order_box \<times> identified) list" where
  "matching_pairs boxes order_bboxes =
     concat (map (\<lambda>e. map (Pair e) (filter (\<lambda>r. coords_of r = fst e) boxes)) order_bboxes)"

definition last_matching_pairs ::
  "identified list \<Rightarrow> order_box list \<Rightarrow> (order_box \<times> identified) list" where
  "last_matching_pairs boxes order_bboxes =
     concat (map (\<lambda>e. case last_match (fst e) boxes of Some r \<Rightarrow> [(e, r)] | None \<Rightarrow> [])
                 order_bboxes)"

definition stamped :: "order_box \<times> identified \<Rightarrow> region" where
  "stamped pr = with_position (snd pr) (snd (fst pr))"

lemma fold_store_lookup:
  "fold (\<lambda>box m. m(coords_of box \<mapsto> box)) boxes m k =
     (case last_match k boxes of Some r \<Rightarrow> Some r | None \<Rightarrow> m k)"
  by (induction boxes arbitrary: m) (auto split: option.splits)

lemma coord_to_box_map_last: "coord_to_box_map boxes k = last_match k boxes"
  by (simp add: coord_to_box_map_def fold_store_lookup split: option.splits)

lemma matched_regions_pairs:
  "matched_regions boxes order_bboxes = map stamped (last_matching_pairs boxes order_bboxes)"
  unfolding matched_regions_def last_matching_pairs_def
  by (induction order_bboxes)
     (auto simp: coord_to_box_map_last stamped_def split: option.splits)

lemma last_match_None: "last_match k boxes = None \<longleftrightarrow> k \<notin> coords_of ` set boxes"
  by (induction boxes) (auto split: option.splits)

lemma distinct_filter_last:
  "distinct (map coords_of boxes) \<Longrightarrow>
   filter (\<lambda>r. coords_of r = k) boxes =
     (case last_match k boxes of Some r \<Rightarrow> [r] | None \<Rightarrow> [])"
proof (induction boxes)
  case Nil
  then show ?case by simp
next
  case (Cons b bs)
  show ?case
  proof (cases "coords_of b = k")
    case True
    with Cons.prems have "k \<notin> coords_of ` set bs" by auto
    then have "last_match k bs = None" "filter (\<lambda>r. coords_of r = k) bs = []"
      by (auto simp: last_match_None filter_empty_conv)
    with True show ?thesis by simp
  next
    case False
    with Cons show ?thesis by (simp split: option.splits)
  qed
qed

lemma distinct_pairs:
  "distinct (map coords_of boxes) \<Longrightarrow>
   matching_pairs boxes order_bboxes = last_matching_pairs boxes order_bboxes"
  unfolding matching_pairs_def last_matching_pairs_def
  by (induction order_bboxes) (auto simp: distinct_filter_last split: option.splits)

section \<open>Properties of the table decomposer\<close>

lemma collect_fold:
  "fold (collect_region line_bboxes) regions w =
     w\<lparr>final_regions := final_regions w @
                         map Region (filter (\<lambda>region. label region \<noteq> ''Table'') regions),
       table_images := table_images w @
                         map coords_of (filter (\<lambda>region. label region = ''Table'') regions),
       table_cells_list := table_cells_list w @
          map (\<lambda>region. map (to_table_local (x1 region, y1 region))
                           (filter (\<lambda>cell. full_encapsulation region cell) line_bboxes))
              (filter (\<lambda>region. label region = ''Table'') regions),
       table_positions := table_positions w @
          map (\<lambda>region. (position region, coords_of region))
              (filter (\<lambda>region. label region = ''Table'') regions)\<rparr>"
  by (induction regions arbitrary: w) (simp_all add: collect_region_def Let_def)

lemma collect_final_regions:
  "final_regions (collect_tables line_bboxes regions) =
     map Region (filter (\<lambda>region. label region \<noteq> ''Table'') regions)"
  by (simp add: collect_tables_def collect_fold)

lemma collect_table_images:
  "table_images (collect_tables line_bboxes regions) =
     map coords_of (filter (\<lambda>region. label region = ''Table'') regions)"
  by (simp add: collect_tables_def collect_fold)

section \<open>The claims\<close>

text \<open>
  Concrete regions below are written with \<open>box\<close>, in the order of the Python list
  \<^verbatim>\<open>[x1, y1, x2, y2, label, box_id, position]\<close>.
\<close>

definition box :: "int \<Rightarrow> int \<Rightarrow> int \<Rightarrow> int \<Rightarrow> string \<Rightarrow> nat \<Rightarrow> int \<Rightarrow> region" where
  "box a b c d l i p = \<lparr>x1 = a, y1 = b, x2 = c, y2 = d, label = l, box_id = i, position = p\<rparr>"

subsection \<open>C1: no overlap after the expander\<close>

text \<open>
  C1 as stated: after \<open>adjust_bounding_boxes_final\<close>, no two distinct regions with labels
  other than Picture and Figure overlap by \<open>rectOverlap\<close>. The code does not establish
  this. Two text boxes far apart on a 10 by 10 page, \<open>[0,0,2,2]\<close> and \<open>[5,5,7,7]\<close>, do not
  overlap; the vertical copy grows both to the full height because their x extents are
  apart, the horizontal copy grows both to the full width because their y extents are
  apart, and the merge makes both the whole page. The two boxes of the specification's
  first scenario end edge to edge at \<open>x = 15\<close>, which \<open>rectOverlap\<close> counts as overlap.
\<close>

theorem expander_overlap_counterexample:
  "\<not> rectOverlap (box 0 0 2 2 ''Text'' 0 0) (box 5 5 7 7 ''Text'' 1 1) \<and>
   adjust_bounding_boxes_final [box 0 0 2 2 ''Text'' 0 0, box 5 5 7 7 ''Text'' 1 1] (0, 0, 10, 10)
     = [box 0 0 10 10 ''Text'' 0 0, box 0 0 10 10 ''Text'' 1 1] \<and>
   rectOverlap (box 0 0 10 10 ''Text'' 0 0) (box 0 0 10 10 ''Text'' 1 1) \<and>
   adjust_bounding_boxes_final
       [box 0 0 10 10 ''Text'' 0 0, box 20 0 30 10 ''Text'' 1 1] (0, 0, 40, 10)
     = [box 0 0 15 10 ''Text'' 0 0, box 15 0 35 10 ''Text'' 1 1] \<and>
   rectOverlap (box 0 0 15 10 ''Text'' 0 0) (box 15 0 35 10 ''Text'' 1 1)"
  by code_simp

text \<open>
  C1 as amended: within each of the two passes, taken alone, two distinct regions that do
  not overlap with positive area before the pass do not overlap with positive area at
  its fixed point. They may come to touch, and nothing of the kind holds for the merged
  list.
\<close>

theorem expander_pass_keeps_apart:
  "\<forall>i<length boxes. \<forall>j<length boxes. i \<noteq> j \<longrightarrow>
     \<not> strictOverlap (boxes ! i) (boxes ! j) \<longrightarrow>
     \<not> strictOverlap (vertical_pass y_max boxes ! i) (vertical_pass y_max boxes ! j) \<and>
     \<not> strictOverlap (horizontal_pass x_max boxes ! i) (horizontal_pass x_max boxes ! j)"
  using vertical_pass_apart[of boxes y_max] horizontal_pass_apart[of boxes x_max]
  by (simp add: keeps_apart_def)

theorem expander_pass_keeps_apart_witness:
  "\<not> strictOverlap (box 0 0 10 10 ''Text'' 0 0) (box 20 0 30 10 ''Text'' 1 1) \<and>
   \<not> strictOverlap
       (vertical_pass 10 [box 0 0 10 10 ''Text'' 0 0, box 20 0 30 10 ''Text'' 1 1] ! 0)
       (vertical_pass 10 [box 0 0 10 10 ''Text'' 0 0, box 20 0 30 10 ''Text'' 1 1] ! 1) \<and>
   \<not> strictOverlap
       (horizontal_pass 40 [box 0 0 10 10 ''Text'' 0 0, box 20 0 30 10 ''Text'' 1 1] ! 0)
       (horizontal_pass 40 [box 0 0 10 10 ''Text'' 0 0, box 20 0 30 10 ''Text'' 1 1] ! 1)"
proof -
  have apart: "\<not> strictOverlap (box 0 0 10 10 ''Text'' 0 0) (box 20 0 30 10 ''Text'' 1 1)"
    by (simp add: strictOverlap_def box_def)
  with expander_pass_keeps_apart
         [of "[box 0 0 10 10 ''Text'' 0 0, box 20 0 30 10 ''Text'' 1 1]" 10 40,
          rule_format, of 0 1]
  show ?thesis by simp
qed

subsection \<open>C2: regions stay within the page\<close>

text \<open>
  C2 as stated: every region of the expander's output lies within
  \<open>[0, 0, width, height]\<close>. The expander never moves an edge inward, so a region that
  reaches beyond the page on entry still does on exit: on a 10 by 10 page the box
  \<open>[5,5,15,8]\<close> comes out as \<open>[0,0,15,10]\<close>.
\<close>

theorem expander_outside_page_counterexample:
  "adjust_bounding_boxes_final [box 5 5 15 8 ''Text'' 0 0] (0, 0, 10, 10)
     = [box 0 0 15 10 ''Text'' 0 0] \<and>
   \<not> x2 (adjust_bounding_boxes_final [box 5 5 15 8 ''Text'' 0 0] (0, 0, 10, 10) ! 0) \<le> 10"
  by code_simp

text \<open>
  C2 as amended: each edge of a region that lies within the page on entry lies within the
  page on exit; in particular a region that is within \<open>[0, 0, width, height]\<close> before the
  expander is within it afterwards.
\<close>

theorem expander_within_page:
  "\<forall>i<length boxes.
     (0 \<le> x1 (boxes ! i) \<longrightarrow>
        0 \<le> x1 (adjust_bounding_boxes_final boxes (0, 0, width, height) ! i)) \<and>
     (0 \<le> y1 (boxes ! i) \<longrightarrow>
        0 \<le> y1 (adjust_bounding_boxes_final boxes (0, 0, width, height) ! i)) \<and>
     (x2 (boxes ! i) \<le> width \<longrightarrow>
        x2 (adjust_bounding_boxes_final boxes (0, 0, width, height) ! i) \<le> width) \<and>
     (y2 (boxes ! i) \<le> height \<longrightarrow>
        y2 (adjust_bounding_boxes_final boxes (0, 0, width, height) ! i) \<le> height)"
proof (intro allI impI)
  fix i assume i: "i < length boxes"
  show "(0 \<le> x1 (boxes ! i) \<longrightarrow>
        0 \<le> x1 (adjust_bounding_boxes_final boxes (0, 0, width, height) ! i)) \<and>
     (0 \<le> y1 (boxes ! i) \<longrightarrow>
        0 \<le> y1 (adjust_bounding_boxes_final boxes (0, 0, width, height) ! i)) \<and>
     (x2 (boxes ! i) \<le> width \<longrightarrow>
        x2 (adjust_bounding_boxes_final boxes (0, 0, width, height) ! i) \<le> width) \<and>
     (y2 (boxes ! i) \<le> height \<longrightarrow>
        y2 (adjust_bounding_boxes_final boxes (0, 0, width, height) ! i) \<le> height)"
    using vertical_pass_nth[OF i, of height] horizontal_pass_nth[OF i, of width]
    by (auto simp: adjust_nth[OF i] final_box_def vertical_rel_def horizontal_rel_def)
qed

theorem expander_within_page_witness:
  "0 \<le> x1 (adjust_bounding_boxes_final [box 2 3 5 6 ''Text'' 0 0] (0, 0, 10, 10) ! 0) \<and>
   0 \<le> y1 (adjust_bounding_boxes_final [box 2 3 5 6 ''Text'' 0 0] (0, 0, 10, 10) ! 0) \<and>
   x2 (adjust_bounding_boxes_final [box 2 3 5 6 ''Text'' 0 0] (0, 0, 10, 10) ! 0) \<le> 10 \<and>
   y2 (adjust_bounding_boxes_final [box 2 3 5 6 ''Text'' 0 0] (0, 0, 10, 10) ! 0) \<le> 10"
  using expander_within_page[of "[box 2 3 5 6 ''Text'' 0 0]" 10 10, rule_format, of 0]
  by (simp add: box_def)

subsection \<open>C3: what the consolidator deletes and returns\<close>

text \<open>
  C3: \<open>consolidate_regions\<close> returns all sparse regions, in order, followed by the layout
  regions, in order, that no sparse region deletes; a sparse region deletes a layout
  region exactly when the structural rule or the encapsulating rule holds for the pair.
\<close>

theorem consolidate_regions_spec:
  "consolidate_regions sparseRegions layoutRegions =
     sparseRegions @
     filter (\<lambda>layout. \<not> (\<exists>sparse\<in>set sparseRegions.
                           structural_rule sparse layout \<or> encapsulating_rule sparse layout))
            layoutRegions"
proof -
  have "map snd (filter (\<lambda>(i, box). i \<notin> to_delete_from_layout sparseRegions layoutRegions)
                  (enumerate 0 layoutRegions)) =
        filter (\<lambda>layout. \<not> (\<exists>sparse\<in>set sparseRegions. supersedes sparse layout)) layoutRegions"
    by (rule keep_by_value) (auto simp: to_delete_from_layout_iff in_set_enumerate_eq)
  then show ?thesis
    by (simp add: consolidate_regions_def keep_all_enumerated supersedes_rules)
qed

text \<open>
  The second scenario of the specification, with a caption box added that contains one
  layout box and merely overlaps another.
\<close>

theorem consolidate_regions_spec_witness:
  "consolidate_regions
     [\<lparr>x1 = 0, y1 = 0, x2 = 100, y2 = 20, label = ''Title''\<rparr>,
      \<lparr>x1 = 0, y1 = 50, x2 = 100, y2 = 60, label = ''Caption''\<rparr>]
     [\<lparr>x1 = 0, y1 = 0, x2 = 100, y2 = 15, label = ''Text''\<rparr>,
      \<lparr>x1 = 10, y1 = 52, x2 = 90, y2 = 58, label = ''Text''\<rparr>,
      \<lparr>x1 = 10, y1 = 55, x2 = 90, y2 = 70, label = ''Text''\<rparr>] =
     [\<lparr>x1 = 0, y1 = 0, x2 = 100, y2 = 20, label = ''Title''\<rparr>,
      \<lparr>x1 = 0, y1 = 50, x2 = 100, y2 = 60, label = ''Caption''\<rparr>,
      \<lparr>x1 = 10, y1 = 55, x2 = 90, y2 = 70, label = ''Text''\<rparr>]"
  using consolidate_regions_spec
    [of "[\<lparr>x1 = 0, y1 = 0, x2 = 100, y2 = 20, label = ''Title''\<rparr>,
          \<lparr>x1 = 0, y1 = 50, x2 = 100, y2 = 60, label = ''Caption''\<rparr>]"
        "[\<lparr>x1 = 0, y1 = 0, x2 = 100, y2 = 15, label = ''Text''\<rparr>,
          \<lparr>x1 = 10, y1 = 52, x2 = 90, y2 = 58, label = ''Text''\<rparr>,
          \<lparr>x1 = 10, y1 = 55, x2 = 90, y2 = 70, label = ''Text''\<rparr>]"]
  by (simp add: structural_rule_def encapsulating_rule_def rectOverlap_def valueInRange_def)

subsection \<open>C4: the degeneracy guard\<close>

text \<open>
  C4: a list of 255 or more regions is replaced by the single region that spans the least
  \<open>x1\<close>, the least \<open>y1\<close>, the greatest \<open>x2\<close> and the greatest \<open>y2\<close> of the list, with
  label Text and id 0; a shorter list is returned as it is.
\<close>

theorem degeneracy_guard_spec:
  "(length regions \<ge> 255 \<longrightarrow>
      degeneracy_guard regions =
        [\<lparr>x1 = Min (x1 ` set regions), y1 = Min (y1 ` set regions),
          x2 = Max (x2 ` set regions), y2 = Max (y2 ` set regions),
          label = ''Text'', box_id = 0\<rparr>]) \<and>
   (length regions < 255 \<longrightarrow> degeneracy_guard regions = regions)"
proof (cases regions)
  case Nil
  then show ?thesis by (simp add: degeneracy_guard_def)
next
  case (Cons b bs)
  then show ?thesis
    by (simp add: degeneracy_guard_def py_min_Min py_max_Max)
qed

text \<open>Three hundred regions, as in the third scenario, and a list of two.\<close>

theorem degeneracy_guard_spec_witness:
  "length (\<lparr>x1 = 1, y1 = 7, x2 = 30, y2 = 40, label = ''Title'', box_id = 0\<rparr> #
           replicate 299 \<lparr>x1 = 5, y1 = 2, x2 = 50, y2 = 9, label = ''Table'', box_id = 1\<rparr>)
     \<ge> 255 \<and>
   degeneracy_guard
     (\<lparr>x1 = 1, y1 = 7, x2 = 30, y2 = 40, label = ''Title'', box_id = 0\<rparr> #
      replicate 299 \<lparr>x1 = 5, y1 = 2, x2 = 50, y2 = 9, label = ''Table'', box_id = 1\<rparr>) =
     [\<lparr>x1 = 1, y1 = 2, x2 = 50, y2 = 40, label = ''Text'', box_id = 0\<rparr>] \<and>
   degeneracy_guard
     [\<lparr>x1 = 1, y1 = 7, x2 = 30, y2 = 40, label = ''Title'', box_id = 0\<rparr>,
      \<lparr>x1 = 5, y1 = 2, x2 = 50, y2 = 9, label = ''Table'', box_id = 1\<rparr>] =
     [\<lparr>x1 = 1, y1 = 7, x2 = 30, y2 = 40, label = ''Title'', box_id = 0\<rparr>,
      \<lparr>x1 = 5, y1 = 2, x2 = 50, y2 = 9, label = ''Table'', box_id = 1\<rparr>]"
  using degeneracy_guard_spec
    [of "\<lparr>x1 = 1, y1 = 7, x2 = 30, y2 = 40, label = ''Title'', box_id = 0\<rparr> #
         replicate 299 \<lparr>x1 = 5, y1 = 2, x2 = 50, y2 = 9, label = ''Table'', box_id = 1\<rparr>"]
    degeneracy_guard_spec
    [of "[\<lparr>x1 = 1, y1 = 7, x2 = 30, y2 = 40, label = ''Title'', box_id = 0\<rparr>,
          \<lparr>x1 = 5, y1 = 2, x2 = 50, y2 = 9, label = ''Table'', box_id = 1\<rparr>]"]
  by simp

subsection \<open>C5: the order reconciler\<close>

text \<open>
  C5 as stated: the output holds exactly the pairs of a prediction entry and a region
  with equal coordinates, each region stamped with the entry's position, sorted by
  position. The lookup is a dictionary keyed by the coordinates, so of several regions
  with the same rectangle only the last one in the list is ever found: with a Text region
  and a Title region on the rectangle \<open>[0,0,1,1]\<close> and one prediction entry for it, both
  pairs match, and the output holds the Title region alone.
\<close>

theorem order_reconcile_duplicate_counterexample:
  "matching_pairs
     [\<lparr>x1 = 0, y1 = 0, x2 = 1, y2 = 1, label = ''Text'', box_id = 0\<rparr>,
      \<lparr>x1 = 0, y1 = 0, x2 = 1, y2 = 1, label = ''Title'', box_id = 1\<rparr>]
     [((0, 0, 1, 1), 0)] =
     [(((0, 0, 1, 1), 0), \<lparr>x1 = 0, y1 = 0, x2 = 1, y2 = 1, label = ''Text'', box_id = 0\<rparr>),
      (((0, 0, 1, 1), 0), \<lparr>x1 = 0, y1 = 0, x2 = 1, y2 = 1, label = ''Title'', box_id = 1\<rparr>)] \<and>
   order_reconcile
     [\<lparr>x1 = 0, y1 = 0, x2 = 1, y2 = 1, label = ''Text'', box_id = 0\<rparr>,
      \<lparr>x1 = 0, y1 = 0, x2 = 1, y2 = 1, label = ''Title'', box_id = 1\<rparr>]
     [((0, 0, 1, 1), 0)] =
     [\<lparr>x1 = 0, y1 = 0, x2 = 1, y2 = 1, label = ''Title'', box_id = 1, position = 0\<rparr>]"
  by (simp add: matching_pairs_def order_reconcile_def matched_regions_def
        coord_to_box_map_def with_position_def coords_of_def)

text \<open>
  C5 as amended: the output is sorted by position and holds, for every prediction entry
  whose coordinates equal those of some region, the last such region of the list stamped
  with the entry's position, and nothing else. When no two regions of the list have the
  same coordinates, these are exactly the pairs of equal coordinates.
\<close>

theorem order_reconcile_spec:
  "sorted (map position (order_reconcile boxes order_bboxes)) \<and>
   mset (order_reconcile boxes order_bboxes) =
     mset (map stamped (last_matching_pairs boxes order_bboxes)) \<and>
   (distinct (map coords_of boxes) \<longrightarrow>
      mset (order_reconcile boxes order_bboxes) =
        mset (map stamped (matching_pairs boxes order_bboxes)))"
  by (simp add: order_reconcile_def matched_regions_pairs distinct_pairs)

theorem order_reconcile_spec_witness:
  "distinct (map coords_of
     [\<lparr>x1 = 0, y1 = 0, x2 = 1, y2 = 1, label = ''Text'', box_id = 0\<rparr>,
      \<lparr>x1 = 2, y1 = 2, x2 = 3, y2 = 3, label = ''Title'', box_id = 1\<rparr>]) \<and>
   sorted (map position (order_reconcile
     [\<lparr>x1 = 0, y1 = 0, x2 = 1, y2 = 1, label = ''Text'', box_id = 0\<rparr>,
      \<lparr>x1 = 2, y1 = 2, x2 = 3, y2 = 3, label = ''Title'', box_id = 1\<rparr>]
     [((0, 0, 1, 1), 1), ((9, 9, 9, 9), 2), ((2, 2, 3, 3), 0)])) \<and>
   mset (order_reconcile
     [\<lparr>x1 = 0, y1 = 0, x2 = 1, y2 = 1, label = ''Text'', box_id = 0\<rparr>,
      \<lparr>x1 = 2, y1 = 2, x2 = 3, y2 = 3, label = ''Title'', box_id = 1\<rparr>]
     [((0, 0, 1, 1), 1), ((9, 9, 9, 9), 2), ((2, 2, 3, 3), 0)]) =
   mset [\<lparr>x1 = 0, y1 = 0, x2 = 1, y2 = 1, label = ''Text'', box_id = 0, position = 1\<rparr>,
         \<lparr>x1 = 2, y1 = 2, x2 = 3, y2 = 3, label = ''Title'', box_id = 1, position = 0\<rparr>]"
  using order_reconcile_spec
    [of "[\<lparr>x1 = 0, y1 = 0, x2 = 1, y2 = 1, label = ''Text'', box_id = 0\<rparr>,
          \<lparr>x1 = 2, y1 = 2, x2 = 3, y2 = 3, label = ''Title'', box_id = 1\<rparr>]"
        "[((0, 0, 1, 1), 1), ((9, 9, 9, 9), 2), ((2, 2, 3, 3), 0)]"]
  by (simp add: matching_pairs_def last_matching_pairs_def stamped_def with_position_def
        coords_of_def)

subsection \<open>C6: a second run of the expander changes nothing\<close>

text \<open>
  C6: running \<open>adjust_bounding_boxes_final\<close> on its own output returns that output. The
  regions are those of the data model, whose rectangles have \<open>x1 \<le> x2\<close> and \<open>y1 \<le> y2\<close>
  (the data model asks for the strict inequalities).
\<close>

theorem expander_idempotent:
  assumes "\<forall>r\<in>set boxes. well_formed r"
  shows "adjust_bounding_boxes_final (adjust_bounding_boxes_final boxes image_bbox) image_bbox
           = adjust_bounding_boxes_final boxes image_bbox"
proof -
  obtain a b x_max y_max where "image_bbox = (a, b, x_max, y_max)"
    by (cases image_bbox) auto
  with adjust_fixed[OF assms] show ?thesis by simp
qed

theorem expander_idempotent_witness:
  "well_formed (box 0 0 10 10 ''Text'' 0 0) \<and> well_formed (box 20 0 30 10 ''Text'' 1 1) \<and>
   adjust_bounding_boxes_final
     (adjust_bounding_boxes_final
        [box 0 0 10 10 ''Text'' 0 0, box 20 0 30 10 ''Text'' 1 1] (0, 0, 40, 10))
     (0, 0, 40, 10) =
   adjust_bounding_boxes_final
     [box 0 0 10 10 ''Text'' 0 0, box 20 0 30 10 ''Text'' 1 1] (0, 0, 40, 10)"
proof -
  have wf: "\<forall>r\<in>set [box 0 0 10 10 ''Text'' 0 0, box 20 0 30 10 ''Text'' 1 1]. well_formed r"
    by (simp add: well_formed_def box_def)
  from expander_idempotent[OF wf, of "(0, 0, 40, 10)"] wf show ?thesis by simp
qed

text \<open>
  On a rectangle with \<open>x1 > x2\<close>, which the data model excludes, \<open>rectOverlap\<close> is no
  longer kept by growing the rectangle, and a second run can move a box again: the
  inverted box \<open>[5,0,1,1]\<close> is stopped in the vertical copy by a picture right of the
  page, and the merged box \<open>[0,0,2,2]\<close> no longer meets that picture.
\<close>

lemma inverted_rectangle_second_run:
  "adjust_bounding_boxes_final
     [box 5 0 1 1 ''Text'' 0 0, box 4 2 6 3 ''Picture'' 1 1] (0, 0, 2, 3) =
     [box 0 0 2 2 ''Text'' 0 0, box 4 2 6 3 ''Picture'' 1 1] \<and>
   adjust_bounding_boxes_final
     [box 0 0 2 2 ''Text'' 0 0, box 4 2 6 3 ''Picture'' 1 1] (0, 0, 2, 3) =
     [box 0 0 2 3 ''Text'' 0 0, box 4 2 6 3 ''Picture'' 1 1]"
  by code_simp

subsection \<open>C7: both loops of the expander terminate\<close>

text \<open>
  C7: both recursions are defined on every input (their domain predicates hold
  everywhere). A sweep that reports a change has lowered the summed distance of the
  edges to their page bounds, a natural number, and is followed by another sweep; a sweep
  that reports no change has left the list as it was, and the loop returns it.
\<close>

theorem expander_loops_terminate:
  "vertical_pass_dom (y_max, boxes) \<and> horizontal_pass_dom (x_max, boxes) \<and>
   (if snd (vertical_sweep y_max boxes)
    then vertical_measure y_max (fst (vertical_sweep y_max boxes)) < vertical_measure y_max boxes \<and>
         vertical_pass y_max boxes = vertical_pass y_max (fst (vertical_sweep y_max boxes))
    else fst (vertical_sweep y_max boxes) = boxes \<and> vertical_pass y_max boxes = boxes) \<and>
   (if snd (horizontal_sweep x_max boxes)
    then horizontal_measure x_max (fst (horizontal_sweep x_max boxes))
           < horizontal_measure x_max boxes \<and>
         horizontal_pass x_max boxes = horizontal_pass x_max (fst (horizontal_sweep x_max boxes))
    else fst (horizontal_sweep x_max boxes) = boxes \<and> horizontal_pass x_max boxes = boxes)"
  using vertical_pass_dom_all[of y_max boxes] horizontal_pass_dom_all[of x_max boxes]
    vertical_sweep_cases[of y_max boxes] horizontal_sweep_cases[of x_max boxes]
  by auto

text \<open>
  A box with room above and below, and none to the left or right: the vertical sweep
  changes it, the horizontal sweep does not.
\<close>

theorem expander_loops_terminate_witness:
  "vertical_pass_dom (10, [box 0 3 10 6 ''Text'' 0 0]) \<and>
   horizontal_pass_dom (10, [box 0 3 10 6 ''Text'' 0 0]) \<and>
   vertical_sweep 10 [box 0 3 10 6 ''Text'' 0 0] = ([box 0 2 10 7 ''Text'' 0 0], True) \<and>
   vertical_measure 10 [box 0 2 10 7 ''Text'' 0 0]
     < vertical_measure 10 [box 0 3 10 6 ''Text'' 0 0] \<and>
   horizontal_sweep 10 [box 0 3 10 6 ''Text'' 0 0] = ([box 0 3 10 6 ''Text'' 0 0], False) \<and>
   horizontal_pass 10 [box 0 3 10 6 ''Text'' 0 0] = [box 0 3 10 6 ''Text'' 0 0]"
proof -
  have v: "vertical_sweep 10 [box 0 3 10 6 ''Text'' 0 0] = ([box 0 2 10 7 ''Text'' 0 0], True)"
    by code_simp
  have h: "horizontal_sweep 10 [box 0 3 10 6 ''Text'' 0 0] = ([box 0 3 10 6 ''Text'' 0 0], False)"
    by code_simp
  from expander_loops_terminate[of 10 "[box 0 3 10 6 ''Text'' 0 0]" 10] v h
  show ?thesis by simp
qed

subsection \<open>C8: table coordinates round-trip\<close>

text \<open>
  C8: moving a rectangle into a table's frame (subtracting the table's top-left corner, as
  for the candidate cells) and back into the page's frame (adding it, as for the emitted
  cells) returns the rectangle; so does the other order.
\<close>

theorem table_translation_round_trip:
  "to_page_absolute origin (to_table_local origin r) = r \<and>
   to_table_local origin (to_page_absolute origin r) = r"
  by (cases origin) (simp add: to_page_absolute_def to_table_local_def)

subsection \<open>C9: a failing table predictor leaves the tables whole\<close>

text \<open>
  C9: when the call of the table predictor raises, the page's final list is the regions
  that are not tables, in order, followed by the table regions of the expanded list, in
  order and unchanged; it holds no cell entry.
\<close>

theorem table_failure_keeps_tables:
  assumes "batch_table_recognition (table_images (collect_tables line_bboxes regions))
             (table_cells_list (collect_tables line_bboxes regions)) = Inl e"
  shows "table_stage batch_table_recognition page_number line_bboxes regions =
           map Region (filter (\<lambda>region. label region \<noteq> ''Table'') regions) @
           map Region (filter (\<lambda>region. label region = ''Table'') regions)"
proof (cases "table_images (collect_tables line_bboxes regions) = []")
  case True
  then have "filter (\<lambda>region. label region = ''Table'') regions = []"
    by (simp add: collect_table_images)
  with True show ?thesis
    by (simp add: table_stage_def collect_final_regions)
next
  case False
  with assms show ?thesis
    by (simp add: table_stage_def collect_final_regions)
qed

text \<open>
  A page with a table before a text region, one line box inside the table, and a
  predictor that always raises.
\<close>

theorem table_failure_keeps_tables_witness:
  "table_stage (\<lambda>images cells. Inl ''out of memory'') 3
     [\<lparr>x1 = 12, y1 = 12, x2 = 20, y2 = 15\<rparr>]
     [box 10 10 50 40 ''Table'' 0 0, box 10 50 50 60 ''Text'' 1 1] =
     [Region (box 10 50 50 60 ''Text'' 1 1), Region (box 10 10 50 40 ''Table'' 0 0)]"
  using table_failure_keeps_tables
    [of "\<lambda>images cells. Inl ''out of memory''"
        "[\<lparr>x1 = 12, y1 = 12, x2 = 20, y2 = 15\<rparr>]"
        "[box 10 10 50 40 ''Table'' 0 0, box 10 50 50 60 ''Text'' 1 1]"
        "''out of memory''" 3]
  by (simp add: box_def)

text \<open>
  For comparison, the same page with a predictor that returns one cell: the cell is
  emitted in page coordinates under its file name, and the table itself is not.
\<close>

lemma table_success_example:
  "table_stage
     (\<lambda>images cells. Inr [[\<lparr>bbox = \<lparr>x1 = 2, y1 = 2, x2 = 10, y2 = 5\<rparr>, row_id = 0, col_id = 1\<rparr>]]) 3
     [\<lparr>x1 = 12, y1 = 12, x2 = 20, y2 = 15\<rparr>]
     [box 10 10 50 40 ''Table'' 0 7, box 10 50 50 60 ''Text'' 1 8] =
     [Region (box 10 50 50 60 ''Text'' 1 8),
      CellRegion \<lparr>x1 = 12, y1 = 12, x2 = 20, y2 = 15, label = ''a''\<rparr> ''3_7_a_0_1.png'' 0 1]"
  by code_simp

subsection \<open>C10: what the expander leaves alone\<close>

text \<open>
  C10: the output of the expander has the length of its input, and at every index the
  label, the box id and the position of the input region; a region labelled Picture or
  Figure is returned as it is.
\<close>

theorem expander_frame:
  "length (adjust_bounding_boxes_final boxes image_bbox) = length boxes \<and>
   (\<forall>i<length boxes.
      label (adjust_bounding_boxes_final boxes image_bbox ! i) = label (boxes ! i) \<and>
      box_id (adjust_bounding_boxes_final boxes image_bbox ! i) = box_id (boxes ! i) \<and>
      position (adjust_bounding_boxes_final boxes image_bbox ! i) = position (boxes ! i) \<and>
      (label (boxes ! i) \<in> {''Picture'', ''Figure''} \<longrightarrow>
         adjust_bounding_boxes_final boxes image_bbox ! i = boxes ! i))"
proof -
  obtain a b x_max y_max where bb: "image_bbox = (a, b, x_max, y_max)"
    by (cases image_bbox) auto
  have "label (adjust_bounding_boxes_final boxes image_bbox ! i) = label (boxes ! i) \<and>
      box_id (adjust_bounding_boxes_final boxes image_bbox ! i) = box_id (boxes ! i) \<and>
      position (adjust_bounding_boxes_final boxes image_bbox ! i) = position (boxes ! i) \<and>
      (label (boxes ! i) \<in> {''Picture'', ''Figure''} \<longrightarrow>
         adjust_bounding_boxes_final boxes image_bbox ! i = boxes ! i)"
    if "i < length boxes" for i
    using vertical_pass_nth[OF that, of y_max] horizontal_pass_nth[OF that, of x_max]
    by (auto simp: bb adjust_nth[OF that] final_box_def vertical_rel_def horizontal_rel_def
          pictorial_def)
  then show ?thesis by (simp add: bb adjust_length)
qed

theorem expander_frame_witness:
  "length (adjust_bounding_boxes_final
             [box 2 3 5 6 ''Picture'' 4 0, box 6 1 8 2 ''Table'' 9 1] (0, 0, 10, 10)) = 2 \<and>
   adjust_bounding_boxes_final
     [box 2 3 5 6 ''Picture'' 4 0, box 6 1 8 2 ''Table'' 9 1] (0, 0, 10, 10) ! 0
     = box 2 3 5 6 ''Picture'' 4 0 \<and>
   label (adjust_bounding_boxes_final
            [box 2 3 5 6 ''Picture'' 4 0, box 6 1 8 2 ''Table'' 9 1] (0, 0, 10, 10) ! 1)
     = ''Table'' \<and>
   box_id (adjust_bounding_boxes_final
             [box 2 3 5 6 ''Picture'' 4 0, box 6 1 8 2 ''Table'' 9 1] (0, 0, 10, 10) ! 1)
     = 9 \<and>
   position (adjust_bounding_boxes_final
               [box 2 3 5 6 ''Picture'' 4 0, box 6 1 8 2 ''Table'' 9 1] (0, 0, 10, 10) ! 1)
     = 1"
  using expander_frame
    [of "[box 2 3 5 6 ''Picture'' 4 0, box 6 1 8 2 ''Table'' 9 1]" "(0, 0, 10, 10)"]
  by (simp add: box_def All_less_Suc)

end
